theory Spec2Isabelle
  imports Main "HOL-Library.Finite_Map"
begin

section \<open>Errors and sets\<close>

text \<open>
  The Python exceptions the embedded code can raise, as values.
\<close>

datatype py_error = ValueError | KeyError | IndexError | TypeError | NotImplementedError

text \<open>
  \<open>s.add(x)\<close> on a Python set. A set that the code iterates over is kept as a
  duplicate-free list, so that every iteration order is some list.
\<close>

definition set_add :: "'a \<Rightarrow> 'a list \<Rightarrow> 'a list" where
  "set_add x xs = (if x \<in> set xs then xs else xs @ [x])"

lemma set_set_add: "set (set_add x xs) = insert x (set xs)"
  by (auto simp: set_add_def)

section \<open>Recursive automaton (rsa/recursive_automaton.py)\<close>

text \<open>
  A label is a \<open>Symbol\<close> of the finite-automaton package. The conversion
  \<open>to_symbol\<close> is imported from a module that is not part of the sources, so
  every operation takes it as its first argument.
\<close>

datatype symbol = Symbol string

text \<open>A box: the label it carries and its automaton (of any type).\<close>

record 'd box =
  label :: symbol
  dfa :: 'd

text \<open>
  The object state: \<open>_labels\<close> (a Python set, kept as a duplicate-free list),
  \<open>_initial_label\<close> and \<open>_boxes\<close> (a dict from label to box).
\<close>

record 'd recursive_automaton =
  labels :: "symbol list"
  initial_label :: symbol
  boxes :: "symbol \<rightharpoonup> 'd box"

text \<open>\<open>get_box\<close>: the box stored under \<open>to_symbol(label)\<close>, or None.\<close>

definition get_box ::
  "(symbol \<Rightarrow> symbol) \<Rightarrow> 'd recursive_automaton \<Rightarrow> symbol \<Rightarrow> 'd box option" where
  "get_box to_symbol r l = boxes r (to_symbol l)"

text \<open>
  The loop of \<open>__init__\<close> over the given boxes: each box is stored under
  \<open>to_symbol(box.label)\<close> and \<open>box.label\<close> itself joins the labels.
\<close>

fun init_boxes ::
  "(symbol \<Rightarrow> symbol) \<Rightarrow> 'd box list \<Rightarrow> (symbol \<rightharpoonup> 'd box) \<times> symbol list \<Rightarrow>
   (symbol \<rightharpoonup> 'd box) \<times> symbol list" where
  "init_boxes to_symbol [] st = st"
| "init_boxes to_symbol (b # bs) (bx, ls) =
     init_boxes to_symbol bs (bx(to_symbol (label b) \<mapsto> b), set_add (label b) ls)"

text \<open>The final loop of \<open>__init__\<close>: the first label without a box raises.\<close>

fun check_labels ::
  "(symbol \<Rightarrow> symbol) \<Rightarrow> 'd recursive_automaton \<Rightarrow> symbol list \<Rightarrow> py_error + unit" where
  "check_labels to_symbol r [] = Inr ()"
| "check_labels to_symbol r (l # ls) =
     (case get_box to_symbol r l of
        None \<Rightarrow> Inl ValueError
      | Some b \<Rightarrow> check_labels to_symbol r ls)"

text \<open>
  \<open>RecursiveAutomaton.__init__(labels, initial_label, boxes)\<close>; an argument left
  at its default is \<open>None\<close>.
\<close>

definition RecursiveAutomaton_init ::
  "(symbol \<Rightarrow> symbol) \<Rightarrow> symbol list option \<Rightarrow> symbol option \<Rightarrow> 'd box list option \<Rightarrow>
   py_error + 'd recursive_automaton" where
  "RecursiveAutomaton_init to_symbol labels0 initial_label0 boxes0 =
    (let ls1 = (case labels0 of None \<Rightarrow> [] | Some ls \<Rightarrow> remdups (map to_symbol ls));
         ls2 = (case initial_label0 of None \<Rightarrow> ls1 | Some i \<Rightarrow> set_add (to_symbol i) ls1);
         ini = (case initial_label0 of None \<Rightarrow> Symbol [] | Some i \<Rightarrow> to_symbol i);
         st = (case boxes0 of None \<Rightarrow> (Map.empty, ls2)
                            | Some bs \<Rightarrow> init_boxes to_symbol bs (Map.empty, ls2));
         r = \<lparr>labels = snd st, initial_label = ini, boxes = fst st\<rparr>
     in case check_labels to_symbol r (labels r) of
          Inl e \<Rightarrow> Inl e
        | Inr u \<Rightarrow> Inr r)"

text \<open>
  \<open>change_initial_label\<close>: converts the argument, raises when it is not a label,
  and returns; the object is the state handed back.
\<close>

definition change_initial_label ::
  "(symbol \<Rightarrow> symbol) \<Rightarrow> 'd recursive_automaton \<Rightarrow> symbol \<Rightarrow> py_error + 'd recursive_automaton" where
  "change_initial_label to_symbol r new_initial_label =
    (let n = to_symbol new_initial_label
     in if n \<notin> set (labels r) then Inl ValueError else Inr r)"

text \<open>
  The declared label set of a construction: the converted given labels, the converted
  initial label when one is given, and the labels of the given boxes.
\<close>

definition declared_labels ::
  "(symbol \<Rightarrow> symbol) \<Rightarrow> symbol list option \<Rightarrow> symbol option \<Rightarrow> 'd box list option \<Rightarrow> symbol set" where
  "declared_labels to_symbol labels0 initial_label0 boxes0 =
     to_symbol ` (case labels0 of None \<Rightarrow> {} | Some ls \<Rightarrow> set ls)
     \<union> to_symbol ` (case initial_label0 of None \<Rightarrow> {} | Some i \<Rightarrow> {i})
     \<union> label ` (case boxes0 of None \<Rightarrow> {} | Some bs \<Rightarrow> set bs)"

text \<open>The given boxes, as a list.\<close>

definition given_boxes :: "'d box list option \<Rightarrow> 'd box list" where
  "given_boxes boxes0 = (case boxes0 of None \<Rightarrow> [] | Some bs \<Rightarrow> bs)"

section \<open>Context-free grammars (cfg/cfg.py): the data model\<close>

text \<open>
  Modelled from the spec: the classes Variable, Terminal and Epsilon are not part of the
  sources. Section 3 gives three disjoint categories of grammar objects: a variable and
  a terminal carry a value (here a string, as the code concatenates it with strings), and
  Epsilon is a singleton marker. \<open>isinstance(x, Terminal)\<close> is \<open>is_Terminal x\<close>.
\<close>

datatype cfg_object = is_Variable: Variable string | is_Terminal: Terminal string | is_Epsilon: Epsilon

text \<open>
  The \<open>value\<close> attribute of a grammar object; Epsilon carries the reserved token
  \<open>epsilon\<close> of section 6.
\<close>

definition cfg_value :: "cfg_object \<Rightarrow> string" where
  "cfg_value x = (case x of Variable v \<Rightarrow> v | Terminal t \<Rightarrow> t | Epsilon \<Rightarrow> ''epsilon'')"

text \<open>
  A production: its head and its body.
\<close>

record production =
  head :: cfg_object
  body :: "cfg_object list"

text \<open>
  Modelled from the spec: the class Production is not part of the sources. Section 3: a
  filtered production strips the Epsilon elements of its body on construction, an
  unfiltered one (\<open>filtering=False\<close>) keeps the body verbatim. Filtering is the default.
\<close>

definition Production :: "cfg_object \<Rightarrow> cfg_object list \<Rightarrow> bool \<Rightarrow> production" where
  "Production h b filtering =
     \<lparr>head = h, body = (if filtering then filter (\<lambda>x. x \<noteq> Epsilon) b else b)\<rparr>"

type_synonym impacts_t = "(cfg_object, (cfg_object \<times> nat) list) fmap"
type_synonym remaining_t = "(cfg_object, int list) fmap"

text \<open>
  The state of a CFG object: \<open>_variables\<close>, \<open>_terminals\<close> (Python sets),
  \<open>_start_symbol\<close> (possibly None), \<open>_productions\<close> (the iterable given to the
  constructor), and the caches \<open>_generating_symbols\<close>, \<open>_nullable_symbols\<close>,
  \<open>_impacts\<close>, \<open>_remaining_lists\<close>, \<open>_added_impacts\<close>, each None until set. A dict
  is a finite map. The cache \<open>_normal_form\<close> only memoises the value that
  \<open>to_normal_form\<close> returns and is left out.
\<close>

record cfg =
  variables :: "cfg_object list"
  terminals :: "cfg_object list"
  start_symbol :: "cfg_object option"
  productions :: "production list"
  generating_symbols :: "cfg_object list option"
  nullable_symbols :: "cfg_object list option"
  impacts :: "impacts_t option"
  remaining_lists :: "remaining_t option"
  added_impacts :: "cfg_object list option"

text \<open>
  Modelled from the spec: \<open>utils.to_variable\<close> is not part of the sources. By section 3
  the variables of a grammar are Variable objects, which the conversion hands back.
\<close>

definition to_variable :: "cfg_object \<Rightarrow> cfg_object" where
  "to_variable x = x"

text \<open>
  Modelled from the spec: \<open>utils.to_terminal\<close> is not part of the sources. By section 3
  the terminals of a grammar are Terminal objects, which the conversion hands back.
\<close>

definition to_terminal :: "cfg_object \<Rightarrow> cfg_object" where
  "to_terminal x = x"

text \<open>
  The loop of \<open>__initialize_production_in_cfg\<close> over a body: a Terminal joins the
  terminals, anything else the variables.
\<close>

fun initialize_body ::
  "cfg_object list \<Rightarrow> cfg_object list \<times> cfg_object list \<Rightarrow> cfg_object list \<times> cfg_object list" where
  "initialize_body [] vt = vt"
| "initialize_body (x # xs) (vs, ts) =
     (if is_Terminal x then initialize_body xs (vs, set_add x ts)
      else initialize_body xs (set_add x vs, ts))"

text \<open>
  \<open>__initialize_production_in_cfg\<close>, on the pair (variables, terminals).
\<close>

definition initialize_production_in_cfg ::
  "production \<Rightarrow> cfg_object list \<times> cfg_object list \<Rightarrow> cfg_object list \<times> cfg_object list" where
  "initialize_production_in_cfg p vt = initialize_body (body p) (set_add (head p) (fst vt), snd vt)"

text \<open>
  \<open>CFG.__init__(variables, terminals, start_symbol, productions)\<close>; an argument left at
  its default is None.
\<close>

definition CFG_init ::
  "cfg_object list option \<Rightarrow> cfg_object list option \<Rightarrow> cfg_object option \<Rightarrow>
   production list option \<Rightarrow> cfg" where
  "CFG_init variables0 terminals0 start_symbol0 productions0 =
    (let vs = (case variables0 of None \<Rightarrow> [] | Some v \<Rightarrow> remdups (map to_variable v));
         ts = (case terminals0 of None \<Rightarrow> [] | Some t \<Rightarrow> remdups (map to_terminal t));
         start = map_option to_variable start_symbol0;
         vs1 = (case start of None \<Rightarrow> vs | Some s \<Rightarrow> set_add s vs);
         ps = (case productions0 of None \<Rightarrow> [] | Some p \<Rightarrow> p);
         vt = fold initialize_production_in_cfg ps (vs1, ts)
     in \<lparr>variables = fst vt, terminals = snd vt, start_symbol = start, productions = ps,
         generating_symbols = None, nullable_symbols = None, impacts = None,
         remaining_lists = None, added_impacts = None\<rparr>)"

section \<open>Generating and nullable symbols\<close>

text \<open>
  The inner loop of \<open>_set_impacts_and_remaining_lists\<close>:
  \<open>self._impacts.setdefault(symbol, []).append((head, index_impact))\<close> for each body
  symbol.
\<close>

fun add_impacts :: "cfg_object \<Rightarrow> nat \<Rightarrow> cfg_object list \<Rightarrow> impacts_t \<Rightarrow> impacts_t" where
  "add_impacts h i [] imp = imp"
| "add_impacts h i (s # ss) imp =
     add_impacts h i ss
       (fmupd s ((case fmlookup imp s of None \<Rightarrow> [] | Some l \<Rightarrow> l) @ [(h, i)]) imp)"

text \<open>
  The loop of \<open>_set_impacts_and_remaining_lists\<close> over the productions, on the triple
  (added_impacts, remaining_lists, impacts).
\<close>

fun set_tables ::
  "production list \<Rightarrow> cfg_object list \<times> remaining_t \<times> impacts_t \<Rightarrow>
   cfg_object list \<times> remaining_t \<times> impacts_t" where
  "set_tables [] t = t"
| "set_tables (p # ps) (added, rem, imp) =
     (if body p = [] then set_tables ps (set_add (head p) added, rem, imp)
      else let temp = (case fmlookup rem (head p) of None \<Rightarrow> [] | Some xs \<Rightarrow> xs)
                        @ [int (length (body p))];
               index_impact = length temp - 1
           in set_tables ps (added, fmupd (head p) temp rem,
                add_impacts (head p) index_impact (body p) imp))"

text \<open>
  \<open>_set_impacts_and_remaining_lists\<close>: returns at once when the tables exist.
\<close>

definition set_impacts_and_remaining_lists :: "cfg \<Rightarrow> cfg" where
  "set_impacts_and_remaining_lists G =
     (if impacts G \<noteq> None then G
      else let t = set_tables (productions G) ([], fmempty, fmempty)
           in G\<lparr>added_impacts := Some (fst t), remaining_lists := Some (fst (snd t)),
                impacts := Some (snd (snd t))\<rparr>)"

text \<open>
  \<open>self._remaining_lists[symbol_impact][index_impact] += d\<close>: the new counter and the
  new table, KeyError for a missing key and IndexError for an index out of range.
\<close>

definition counter_add ::
  "int \<Rightarrow> cfg_object \<Rightarrow> nat \<Rightarrow> remaining_t \<Rightarrow> py_error + (int \<times> remaining_t)" where
  "counter_add d h i rem =
     (case fmlookup rem h of
        None \<Rightarrow> Inl KeyError
      | Some xs \<Rightarrow>
          if i < length xs then Inr (xs ! i + d, fmupd h (xs[i := xs ! i + d]) rem)
          else Inl IndexError)"

type_synonym loop_state =
  "remaining_t \<times> cfg_object list \<times> cfg_object list \<times> (cfg_object \<times> nat) list"

text \<open>
  The \<open>for\<close> loop over the impacts of the current symbol in
  \<open>_get_generating_or_nullable\<close>, on the state (remaining_lists, g_symbols, to_process,
  processed_with_modification). \<open>to_process\<close> is a Python list used as a stack:
  \<open>append\<close> adds at the end and \<open>pop\<close> takes the last element.
\<close>

fun process_impacts :: "(cfg_object \<times> nat) list \<Rightarrow> loop_state \<Rightarrow> py_error + loop_state" where
  "process_impacts [] st = Inr st"
| "process_impacts ((symbol_impact, index_impact) # xs) (rem, g_symbols, to_process, pm) =
     (if symbol_impact \<in> set g_symbols then process_impacts xs (rem, g_symbols, to_process, pm)
      else case counter_add (- 1) symbol_impact index_impact rem of
             Inl e \<Rightarrow> Inl e
           | Inr (v, rem') \<Rightarrow>
               if v = 0
               then process_impacts xs (rem', set_add symbol_impact g_symbols,
                      to_process @ [symbol_impact], pm @ [(symbol_impact, index_impact)])
               else process_impacts xs (rem', g_symbols, to_process,
                      pm @ [(symbol_impact, index_impact)]))"

lemma counter_add_dom:
  "counter_add d h i rem = Inr (v, rem') \<Longrightarrow> fmdom' rem' = fmdom' rem \<and> h \<in> fmdom' rem"
  by (auto simp: counter_add_def fmlookup_dom'_iff split: option.splits if_splits)

lemma process_impacts_measure:
  "process_impacts xs (rem, g, tp, pm) = Inr (rem', g', tp', pm') \<Longrightarrow>
   fmdom' rem' = fmdom' rem \<and>
   card (fmdom' rem - set g') + length tp' \<le> card (fmdom' rem - set g) + length tp"
proof (induction xs arbitrary: rem g tp pm)
  case Nil
  then show ?case by simp
next
  case (Cons x xs)
  obtain h i where x: "x = (h, i)" by (cases x)
  show ?case
  proof (cases "h \<in> set g")
    case True
    with Cons.prems x have "process_impacts xs (rem, g, tp, pm) = Inr (rem', g', tp', pm')"
      by simp
    from Cons.IH [OF this] show ?thesis .
  next
    case False
    with Cons.prems x obtain v rem1 where c: "counter_add (- 1) h i rem = Inr (v, rem1)"
      by (cases "counter_add (- 1) h i rem") auto
    from counter_add_dom [OF c] have d: "fmdom' rem1 = fmdom' rem" and hd: "h \<in> fmdom' rem"
      by simp_all
    show ?thesis
    proof (cases "v = 0")
      case True
      with Cons.prems x False c have
        "process_impacts xs (rem1, set_add h g, tp @ [h], pm @ [(h, i)]) = Inr (rem', g', tp', pm')"
        by simp
      from Cons.IH [OF this] have 1: "fmdom' rem' = fmdom' rem1"
        and 2: "card (fmdom' rem1 - set g') + length tp'
                \<le> card (fmdom' rem1 - set (set_add h g)) + length (tp @ [h])"
        by simp_all
      have "fmdom' rem - insert h (set g) = (fmdom' rem - set g) - {h}" by auto
      moreover have "h \<in> fmdom' rem - set g" using hd False by simp
      ultimately have "card (fmdom' rem - insert h (set g)) + 1 = card (fmdom' rem - set g)"
        using card_Suc_Diff1 [of "fmdom' rem - set g" h] by simp
      with 1 2 d show ?thesis by (simp add: set_set_add)
    next
      case nz: False
      with Cons.prems x False c have
        "process_impacts xs (rem1, g, tp, pm @ [(h, i)]) = Inr (rem', g', tp', pm')"
        by simp
      from Cons.IH [OF this] d show ?thesis by simp
    qed
  qed
qed

text \<open>
  The \<open>while to_process\<close> loop of \<open>_get_generating_or_nullable\<close>.
\<close>

function gn_loop :: "impacts_t \<Rightarrow> loop_state \<Rightarrow> py_error + loop_state" where
  "gn_loop imp (rem, g_symbols, to_process, pm) =
     (if to_process = [] then Inr (rem, g_symbols, to_process, pm)
      else case process_impacts
                  (case fmlookup imp (last to_process) of None \<Rightarrow> [] | Some l \<Rightarrow> l)
                  (rem, g_symbols, butlast to_process, pm) of
             Inl e \<Rightarrow> Inl e
           | Inr st \<Rightarrow> gn_loop imp st)"
  by pat_completeness auto
termination
proof (relation "measure (\<lambda>(imp, rem, g, tp, pm). card (fmdom' rem - set g) + length tp)")
  show "wf (measure (\<lambda>(imp, rem, g, tp, pm). card (fmdom' rem - set g) + length tp))"
    by simp
next
  fix imp :: impacts_t and rem g_symbols to_process pm x2
  assume ne: "to_process \<noteq> []"
    and p: "process_impacts (case fmlookup imp (last to_process) of None \<Rightarrow> [] | Some l \<Rightarrow> l)
         (rem, g_symbols, butlast to_process, pm) = Inr x2"
  obtain rem' g' tp' pm' where x2: "x2 = (rem', g', tp', pm')" by (cases x2)
  from ne have lt: "length (butlast to_process) < length to_process" by simp
  from process_impacts_measure [OF p [unfolded x2]]
  have le: "card (fmdom' rem - set g') + length tp'
      \<le> card (fmdom' rem - set g_symbols) + length (butlast to_process)"
    by blast
  from process_impacts_measure [OF p [unfolded x2]]
  have dm: "fmdom' rem' = fmdom' rem"
    by blast
  from lt le dm
  show "((imp, x2), imp, rem, g_symbols, to_process, pm)
        \<in> measure (\<lambda>(imp, rem, g, tp, pm). card (fmdom' rem - set g) + length tp)"
    by (simp add: x2 del: length_butlast)
qed

declare gn_loop.simps [simp del]


text \<open>
  The loop over \<open>self._added_impacts\<close> that seeds the working set.
\<close>

fun seed_added ::
  "cfg_object list \<Rightarrow> cfg_object list \<times> cfg_object list \<Rightarrow> cfg_object list \<times> cfg_object list" where
  "seed_added [] st = st"
| "seed_added (symbol # xs) (g_symbols, to_process) =
     (if symbol \<notin> set g_symbols
      then seed_added xs (set_add symbol g_symbols, to_process @ [symbol])
      else seed_added xs (g_symbols, to_process))"

text \<open>
  The loop over \<open>self._terminals\<close> (run only when \<open>nullable\<close> is false).
\<close>

fun seed_terminals ::
  "cfg_object list \<Rightarrow> cfg_object list \<times> cfg_object list \<Rightarrow> cfg_object list \<times> cfg_object list" where
  "seed_terminals [] st = st"
| "seed_terminals (terminal # xs) (g_symbols, to_process) =
     seed_terminals xs (set_add terminal g_symbols, to_process @ [terminal])"

text \<open>
  The loop headed \<open># Fix modifications\<close>: every recorded decrement is added back, in
  the order it was recorded.
\<close>

fun restore :: "(cfg_object \<times> nat) list \<Rightarrow> remaining_t \<Rightarrow> py_error + remaining_t" where
  "restore [] rem = Inr rem"
| "restore ((symbol_impact, index_impact) # xs) rem =
     (case counter_add 1 symbol_impact index_impact rem of
        Inl e \<Rightarrow> Inl e
      | Inr (v, rem') \<Rightarrow> restore xs rem')"

text \<open>
  \<open>_get_generating_or_nullable(nullable)\<close>: the result set and the object state after
  the call.
\<close>

definition get_generating_or_nullable :: "bool \<Rightarrow> cfg \<Rightarrow> py_error + (cfg_object list \<times> cfg)" where
  "get_generating_or_nullable nullable G0 =
     (let G = set_impacts_and_remaining_lists G0
      in case (added_impacts G, remaining_lists G, impacts G) of
           (Some added, Some rem, Some imp) \<Rightarrow>
             (let st0 = seed_added added ([Epsilon], [Epsilon]);
                  st1 = (if \<not> nullable then seed_terminals (terminals G) st0 else st0)
              in case gn_loop imp (rem, fst st1, snd st1, []) of
                   Inl e \<Rightarrow> Inl e
                 | Inr (rem1, g_symbols, to_process, pm) \<Rightarrow>
                     (case restore pm rem1 of
                        Inl e \<Rightarrow> Inl e
                      | Inr rem2 \<Rightarrow>
                          if Epsilon \<in> set g_symbols
                          then Inr (remove1 Epsilon g_symbols, G\<lparr>remaining_lists := Some rem2\<rparr>)
                          else Inl KeyError))
         | _ \<Rightarrow> Inl TypeError)"

text \<open>
  \<open>get_generating_symbols\<close>, with its cache.
\<close>

definition get_generating_symbols :: "cfg \<Rightarrow> py_error + (cfg_object list \<times> cfg)" where
  "get_generating_symbols G =
     (case generating_symbols G of
        Some g \<Rightarrow> Inr (g, G)
      | None \<Rightarrow>
          (case get_generating_or_nullable False G of
             Inl e \<Rightarrow> Inl e
           | Inr (g, G') \<Rightarrow> Inr (g, G'\<lparr>generating_symbols := Some g\<rparr>)))"

text \<open>
  \<open>get_nullable_symbols\<close>, with its cache.
\<close>

definition get_nullable_symbols :: "cfg \<Rightarrow> py_error + (cfg_object list \<times> cfg)" where
  "get_nullable_symbols G =
     (case nullable_symbols G of
        Some g \<Rightarrow> Inr (g, G)
      | None \<Rightarrow>
          (case get_generating_or_nullable True G of
             Inl e \<Rightarrow> Inl e
           | Inr (g, G') \<Rightarrow> Inr (g, G'\<lparr>nullable_symbols := Some g\<rparr>)))"

section \<open>Epsilon from the start symbol\<close>

text \<open>
  The loop of \<open>generate_epsilon\<close> over \<open>self._added_impacts\<close>; \<open>Inl True\<close> is the
  early \<open>return True\<close>.
\<close>

fun seed_epsilon ::
  "cfg_object option \<Rightarrow> cfg_object list \<Rightarrow> cfg_object list \<times> cfg_object list \<Rightarrow>
   bool + cfg_object list \<times> cfg_object list" where
  "seed_epsilon start [] st = Inr st"
| "seed_epsilon start (symbol # xs) (generate_eps, to_process) =
     (if Some symbol = start then Inl True
      else if symbol \<notin> set generate_eps
      then seed_epsilon start xs (set_add symbol generate_eps, to_process @ [symbol])
      else seed_epsilon start xs (generate_eps, to_process))"

type_synonym eps_state = "remaining_t \<times> cfg_object list \<times> cfg_object list"

text \<open>
  How the body of a loop ends: \<open>return b\<close>, an exception, or on to the next round.
\<close>

datatype 'a flow = Return bool | Raise py_error | Go 'a

text \<open>
  The \<open>for\<close> loop over the impacts of the current symbol in \<open>generate_epsilon\<close>,
  which works on a deep copy of the counter table.
\<close>

fun epsilon_impacts ::
  "cfg_object option \<Rightarrow> (cfg_object \<times> nat) list \<Rightarrow> eps_state \<Rightarrow> eps_state flow" where
  "epsilon_impacts start [] st = Go st"
| "epsilon_impacts start ((symbol_impact, index_impact) # xs) (rem, generate_eps, to_process) =
     (if symbol_impact \<in> set generate_eps
      then epsilon_impacts start xs (rem, generate_eps, to_process)
      else case counter_add (- 1) symbol_impact index_impact rem of
             Inl e \<Rightarrow> Raise e
           | Inr (v, rem') \<Rightarrow>
               if v = 0
               then (if Some symbol_impact = start then Return True
                     else epsilon_impacts start xs
                            (rem', set_add symbol_impact generate_eps, to_process @ [symbol_impact]))
               else epsilon_impacts start xs (rem', generate_eps, to_process))"

lemma epsilon_impacts_measure:
  "epsilon_impacts start xs (rem, g, tp) = Go (rem', g', tp') \<Longrightarrow>
   fmdom' rem' = fmdom' rem \<and>
   card (fmdom' rem - set g') + length tp' \<le> card (fmdom' rem - set g) + length tp"
proof (induction xs arbitrary: rem g tp)
  case Nil
  then show ?case by simp
next
  case (Cons x xs)
  obtain h i where x: "x = (h, i)" by (cases x)
  show ?case
  proof (cases "h \<in> set g")
    case True
    with Cons.prems x have "epsilon_impacts start xs (rem, g, tp) = Go (rem', g', tp')"
      by simp
    from Cons.IH [OF this] show ?thesis .
  next
    case False
    with Cons.prems x obtain v rem1 where c: "counter_add (- 1) h i rem = Inr (v, rem1)"
      by (cases "counter_add (- 1) h i rem") auto
    from counter_add_dom [OF c] have d: "fmdom' rem1 = fmdom' rem" and hd: "h \<in> fmdom' rem"
      by simp_all
    show ?thesis
    proof (cases "v = 0")
      case True
      with Cons.prems x False c have
        "epsilon_impacts start xs (rem1, set_add h g, tp @ [h]) = Go (rem', g', tp')"
        by (simp split: if_splits)
      from Cons.IH [OF this] have 1: "fmdom' rem' = fmdom' rem1"
        and 2: "card (fmdom' rem1 - set g') + length tp'
                \<le> card (fmdom' rem1 - set (set_add h g)) + length (tp @ [h])"
        by simp_all
      have "fmdom' rem - insert h (set g) = (fmdom' rem - set g) - {h}" by auto
      moreover have "h \<in> fmdom' rem - set g" using hd False by simp
      ultimately have "card (fmdom' rem - insert h (set g)) + 1 = card (fmdom' rem - set g)"
        using card_Suc_Diff1 [of "fmdom' rem - set g" h] by simp
      with 1 2 d show ?thesis by (simp add: set_set_add)
    next
      case nz: False
      with Cons.prems x False c have
        "epsilon_impacts start xs (rem1, g, tp) = Go (rem', g', tp')"
        by simp
      from Cons.IH [OF this] d show ?thesis by simp
    qed
  qed
qed

text \<open>
  The \<open>while to_process\<close> loop of \<open>generate_epsilon\<close>.
\<close>

function epsilon_loop ::
  "cfg_object option \<Rightarrow> impacts_t \<Rightarrow> eps_state \<Rightarrow> py_error + bool" where
  "epsilon_loop start imp (rem, generate_eps, to_process) =
     (if to_process = [] then Inr False
      else case epsilon_impacts start
                  (case fmlookup imp (last to_process) of None \<Rightarrow> [] | Some l \<Rightarrow> l)
                  (rem, generate_eps, butlast to_process) of
             Return b \<Rightarrow> Inr b
           | Raise e \<Rightarrow> Inl e
           | Go st \<Rightarrow> epsilon_loop start imp st)"
  by pat_completeness auto
termination
proof (relation "measure (\<lambda>(start, imp, rem, g, tp). card (fmdom' rem - set g) + length tp)")
  show "wf (measure (\<lambda>(start, imp, rem, g, tp). card (fmdom' rem - set g) + length tp))"
    by simp
next
  fix start :: "cfg_object option" and imp :: impacts_t and rem generate_eps to_process x3
  assume ne: "to_process \<noteq> []"
    and p: "epsilon_impacts start
         (case fmlookup imp (last to_process) of None \<Rightarrow> [] | Some l \<Rightarrow> l)
         (rem, generate_eps, butlast to_process) = Go x3"
  obtain rem' g' tp' where x3: "x3 = (rem', g', tp')" by (cases x3)
  from ne have lt: "length (butlast to_process) < length to_process" by simp
  from epsilon_impacts_measure [OF p [unfolded x3]]
  have le: "card (fmdom' rem - set g') + length tp'
      \<le> card (fmdom' rem - set generate_eps) + length (butlast to_process)"
    by blast
  from epsilon_impacts_measure [OF p [unfolded x3]]
  have dm: "fmdom' rem' = fmdom' rem"
    by blast
  from lt le dm
  show "((start, imp, x3), start, imp, rem, generate_eps, to_process)
        \<in> measure (\<lambda>(start, imp, rem, g, tp). card (fmdom' rem - set g) + length tp)"
    by (simp add: x3 del: length_butlast)
qed

declare epsilon_loop.simps [simp del]

text \<open>
  \<open>generate_epsilon\<close>: whether the start symbol derives the empty word, and the object
  state after the call (the tables are built, the counters are only copied).
\<close>

definition generate_epsilon :: "cfg \<Rightarrow> py_error + (bool \<times> cfg)" where
  "generate_epsilon G0 =
     (let G = set_impacts_and_remaining_lists G0
      in case (added_impacts G, remaining_lists G, impacts G) of
           (Some added, Some rem, Some imp) \<Rightarrow>
             (case seed_epsilon (start_symbol G) added ([Epsilon], [Epsilon]) of
                Inl b \<Rightarrow> Inr (b, G)
              | Inr (generate_eps, to_process) \<Rightarrow>
                  (case epsilon_loop (start_symbol G) imp (rem, generate_eps, to_process) of
                     Inl e \<Rightarrow> Inl e
                   | Inr b \<Rightarrow> Inr (b, G)))
         | _ \<Rightarrow> Inl TypeError)"

section \<open>Reachable symbols and unit pairs\<close>

type_synonym transition_d = "(cfg_object, cfg_object list) fmap"

text \<open>
  The loop of \<open>get_reachable_symbols\<close> that fills \<open>reachable_transition_d\<close>.
\<close>

fun reachable_transition_d :: "production list \<Rightarrow> transition_d \<Rightarrow> transition_d" where
  "reachable_transition_d [] d = d"
| "reachable_transition_d (p # ps) d =
     reachable_transition_d ps
       (fmupd (head p)
          ((case fmlookup d (head p) of None \<Rightarrow> [] | Some l \<Rightarrow> l)
             @ filter (\<lambda>symbol. \<not> is_Epsilon symbol) (body p)) d)"

type_synonym reach_state = "cfg_object option list \<times> cfg_object option list"

text \<open>
  The \<open>for\<close> loop over the successors of the current symbol in
  \<open>get_reachable_symbols\<close>. The set \<open>r_symbols\<close> holds the start symbol, which may be
  None, so its elements are options.
\<close>

fun reach_step :: "cfg_object list \<Rightarrow> reach_state \<Rightarrow> reach_state" where
  "reach_step [] st = st"
| "reach_step (next_symbol # xs) (r_symbols, to_process) =
     (if Some next_symbol \<notin> set r_symbols
      then reach_step xs (set_add (Some next_symbol) r_symbols, to_process @ [Some next_symbol])
      else reach_step xs (r_symbols, to_process))"

text \<open>
  \<open>d.get(k, [])\<close>.
\<close>

definition dict_get_list :: "('k, 'v list) fmap \<Rightarrow> 'k \<Rightarrow> 'v list" where
  "dict_get_list d k = (case fmlookup d k of None \<Rightarrow> [] | Some l \<Rightarrow> l)"

text \<open>
  The symbols stored in a transition dict (used to bound the loop).
\<close>

definition d_symbols :: "transition_d \<Rightarrow> cfg_object set" where
  "d_symbols d = (\<Union>l \<in> fmran' d. set l)"

lemma finite_d_symbols: "finite (d_symbols d)"
  unfolding d_symbols_def by (rule finite_UN_I) (simp_all add: fmran'_alt_def)

lemma dict_get_list_symbols: "set (dict_get_list d k) \<subseteq> d_symbols d"
proof
  fix x assume "x \<in> set (dict_get_list d k)"
  then obtain l where l: "fmlookup d k = Some l" and x: "x \<in> set l"
    by (cases "fmlookup d k") (auto simp: dict_get_list_def)
  from l have "l \<in> fmran' d" by (rule fmran'I)
  with x show "x \<in> d_symbols d" unfolding d_symbols_def by blast
qed

lemma reach_step_measure:
  "set xs \<subseteq> U \<Longrightarrow> finite U \<Longrightarrow>
   card (Some ` U - set (fst (reach_step xs (r, tp)))) + length (snd (reach_step xs (r, tp)))
   \<le> card (Some ` U - set r) + length tp"
proof (induction xs arbitrary: r tp)
  case Nil
  then show ?case by simp
next
  case (Cons x xs)
  show ?case
  proof (cases "Some x \<in> set r")
    case True
    with Cons show ?thesis by simp
  next
    case False
    from Cons.prems have xs: "set xs \<subseteq> U" and xU: "x \<in> U" by simp_all
    from Cons.IH [OF xs Cons.prems(2), of "set_add (Some x) r" "tp @ [Some x]"]
    have 1: "card (Some ` U - set (fst (reach_step (x # xs) (r, tp))))
              + length (snd (reach_step (x # xs) (r, tp)))
            \<le> card (Some ` U - insert (Some x) (set r)) + (length tp + 1)"
      using False by (simp add: set_set_add)
    have "Some ` U - insert (Some x) (set r) = (Some ` U - set r) - {Some x}" by auto
    moreover have "Some x \<in> Some ` U - set r" using xU False by simp
    moreover have "finite (Some ` U - set r)" using Cons.prems(2) by simp
    ultimately have "card (Some ` U - insert (Some x) (set r)) + 1 = card (Some ` U - set r)"
      using card_Suc_Diff1 [of "Some ` U - set r" "Some x"] by simp
    with 1 show ?thesis by simp
  qed
qed

text \<open>
  The \<open>while to_process\<close> loop of \<open>get_reachable_symbols\<close>.
\<close>

function reach_loop :: "transition_d \<Rightarrow> reach_state \<Rightarrow> cfg_object option list" where
  "reach_loop d (r_symbols, to_process) =
     (if to_process = [] then r_symbols
      else reach_loop d
             (reach_step
                (case last to_process of None \<Rightarrow> [] | Some current \<Rightarrow> dict_get_list d current)
                (r_symbols, butlast to_process)))"
  by pat_completeness auto
termination
proof (relation "measure (\<lambda>(d, r, tp). card (Some ` d_symbols d - set r) + length tp)")
  show "wf (measure (\<lambda>(d, r, tp). card (Some ` d_symbols d - set r) + length tp))"
    by simp
next
  fix d :: transition_d and r_symbols to_process :: "cfg_object option list"
  assume ne: "to_process \<noteq> []"
  let ?xs = "case last to_process of None \<Rightarrow> [] | Some current \<Rightarrow> dict_get_list d current"
  have sub: "set ?xs \<subseteq> d_symbols d"
    using dict_get_list_symbols by (auto split: option.splits)
  from ne have lt: "length (butlast to_process) < length to_process" by simp
  obtain r' tp' where st: "reach_step ?xs (r_symbols, butlast to_process) = (r', tp')"
    by (cases "reach_step ?xs (r_symbols, butlast to_process)")
  from reach_step_measure [OF sub finite_d_symbols, of r_symbols "butlast to_process"] st
  have "card (Some ` d_symbols d - set r') + length tp'
      \<le> card (Some ` d_symbols d - set r_symbols) + length (butlast to_process)"
    by simp
  with lt show "((d, reach_step ?xs (r_symbols, butlast to_process)), d, r_symbols, to_process)
        \<in> measure (\<lambda>(d, r, tp). card (Some ` d_symbols d - set r) + length tp)"
    by (simp add: st del: length_butlast)
qed

declare reach_loop.simps [simp del]

text \<open>
  \<open>get_reachable_symbols\<close>.
\<close>

definition get_reachable_symbols :: "cfg \<Rightarrow> cfg_object option list" where
  "get_reachable_symbols G =
     reach_loop (reachable_transition_d (productions G) fmempty)
       ([start_symbol G], [start_symbol G])"

type_synonym productions_d = "(cfg_object, production list) fmap"

text \<open>
  Modelled from the spec: \<open>utils_cfg.get_productions_d\<close> is not part of the sources.
  Section 4.2 (step 4) uses it to find every production of a given head: a dict from
  head to the list of productions with that head, in their order.
\<close>

fun get_productions_d_from :: "production list \<Rightarrow> productions_d \<Rightarrow> productions_d" where
  "get_productions_d_from [] d = d"
| "get_productions_d_from (p # ps) d =
     get_productions_d_from ps (fmupd (head p) (dict_get_list d (head p) @ [p]) d)"

text \<open>
  Modelled from the spec: \<open>utils_cfg.get_productions_d\<close>, from the empty dict.
\<close>

definition get_productions_d :: "production list \<Rightarrow> productions_d" where
  "get_productions_d ps = get_productions_d_from ps fmempty"

type_synonym unit_state = "(cfg_object \<times> cfg_object) list \<times> (cfg_object \<times> cfg_object) list"

text \<open>
  The \<open>for\<close> loop over the unit productions of \<open>var_b\<close> in \<open>get_unit_pairs\<close>;
  \<open>production.body[0]\<close> raises IndexError on an empty body.
\<close>

fun unit_step :: "cfg_object \<Rightarrow> production list \<Rightarrow> unit_state \<Rightarrow> py_error + unit_state" where
  "unit_step var_a [] st = Inr st"
| "unit_step var_a (p # ps) (unit_pairs, to_process) =
     (case body p of
        [] \<Rightarrow> Inl IndexError
      | b # bs \<Rightarrow>
          if (var_a, b) \<notin> set unit_pairs
          then unit_step var_a ps (set_add (var_a, b) unit_pairs, to_process @ [(var_a, b)])
          else unit_step var_a ps (unit_pairs, to_process))"

text \<open>
  The first body symbols stored in a productions dict (used to bound the loop).
\<close>

definition d_firsts :: "productions_d \<Rightarrow> cfg_object set" where
  "d_firsts d = (\<Union>l \<in> fmran' d. \<Union>p \<in> set l. set (take 1 (body p)))"

lemma finite_d_firsts: "finite (d_firsts d)"
  unfolding d_firsts_def by (intro finite_UN_I) (simp_all add: fmran'_alt_def)

lemma dict_get_list_firsts:
  "p \<in> set (dict_get_list d k) \<Longrightarrow> body p = b # bs \<Longrightarrow> b \<in> d_firsts d"
proof -
  assume p: "p \<in> set (dict_get_list d k)" and b: "body p = b # bs"
  then obtain l where l: "fmlookup d k = Some l" and x: "p \<in> set l"
    by (cases "fmlookup d k") (auto simp: dict_get_list_def)
  from l have "l \<in> fmran' d" by (rule fmran'I)
  moreover from b have "b \<in> set (take 1 (body p))" by simp
  ultimately show "b \<in> d_firsts d" unfolding d_firsts_def using x by blast
qed

lemma unit_step_measure:
  assumes "unit_step a ps (up, tp) = Inr (up', tp')"
    and "\<And>p b bs. p \<in> set ps \<Longrightarrow> body p = b # bs \<Longrightarrow> b \<in> B"
    and "finite F" and "finite B" and "a \<in> F"
  shows "card (F \<times> B - set up') + length tp' \<le> card (F \<times> B - set up) + length tp
       \<and> fst ` set tp' \<subseteq> insert a (fst ` set tp)"
  using assms
proof (induction ps arbitrary: up tp)
  case Nil
  then show ?case by auto
next
  case (Cons p ps)
  from Cons.prems(1) obtain b bs where bp: "body p = b # bs"
    by (cases "body p") auto
  from Cons.prems(2) [of p b bs] bp have bB: "b \<in> B" by simp
  have rest: "\<And>p b bs. p \<in> set ps \<Longrightarrow> body p = b # bs \<Longrightarrow> b \<in> B"
    using Cons.prems(2) by auto
  show ?case
  proof (cases "(a, b) \<in> set up")
    case True
    with Cons.prems(1) bp have "unit_step a ps (up, tp) = Inr (up', tp')" by simp
    from Cons.IH [OF this rest Cons.prems(3,4,5)] show ?thesis .
  next
    case False
    with Cons.prems(1) bp have
      "unit_step a ps (set_add (a, b) up, tp @ [(a, b)]) = Inr (up', tp')" by simp
    from Cons.IH [OF this rest Cons.prems(3,4,5)]
    have 1: "card (F \<times> B - set up') + length tp'
        \<le> card (F \<times> B - insert (a, b) (set up)) + (length tp + 1)"
      and 2: "fst ` set tp' \<subseteq> insert a (fst ` set tp)"
      by (auto simp: set_set_add)
    have "F \<times> B - insert (a, b) (set up) = (F \<times> B - set up) - {(a, b)}" by auto
    moreover have "(a, b) \<in> F \<times> B - set up" using False bB Cons.prems(5) by simp
    moreover have "finite (F \<times> B - set up)" using Cons.prems(3,4) by simp
    ultimately have "card (F \<times> B - insert (a, b) (set up)) + 1 = card (F \<times> B - set up)"
      using card_Suc_Diff1 [of "F \<times> B - set up" "(a, b)"] by simp
    with 1 2 show ?thesis by simp
  qed
qed

text \<open>
  The \<open>while to_process\<close> loop of \<open>get_unit_pairs\<close>.
\<close>

function unit_loop ::
  "productions_d \<Rightarrow> unit_state \<Rightarrow> py_error + (cfg_object \<times> cfg_object) list" where
  "unit_loop d (unit_pairs, to_process) =
     (if to_process = [] then Inr unit_pairs
      else case unit_step (fst (last to_process))
                  (dict_get_list d (snd (last to_process)))
                  (unit_pairs, butlast to_process) of
             Inl e \<Rightarrow> Inl e
           | Inr st \<Rightarrow> unit_loop d st)"
  by pat_completeness auto
termination
proof (relation "measure (\<lambda>(d, up, tp). card (fst ` set tp \<times> d_firsts d - set up) + length tp)")
  show "wf (measure (\<lambda>(d, up, tp). card (fst ` set tp \<times> d_firsts d - set up) + length tp))"
    by simp
next
  fix d :: productions_d and unit_pairs to_process :: "(cfg_object \<times> cfg_object) list" and x2
  assume ne: "to_process \<noteq> []"
    and p: "unit_step (fst (last to_process)) (dict_get_list d (snd (last to_process)))
         (unit_pairs, butlast to_process) = Inr x2"
  obtain up' tp' where x2: "x2 = (up', tp')" by (cases x2)
  let ?F = "fst ` set to_process" and ?B = "d_firsts d"
  from ne have lt: "length (butlast to_process) < length to_process" by simp
  from ne have aF: "fst (last to_process) \<in> ?F" by simp
  have fF: "finite ?F" by simp
  have prem: "\<And>p b bs. p \<in> set (dict_get_list d (snd (last to_process))) \<Longrightarrow>
      body p = b # bs \<Longrightarrow> b \<in> ?B"
    by (rule dict_get_list_firsts)
  note m = unit_step_measure [OF p [unfolded x2] prem fF finite_d_firsts aF]
  from m have le: "card (?F \<times> ?B - set up') + length tp'
        \<le> card (?F \<times> ?B - set unit_pairs) + length (butlast to_process)"
    by (rule conjunct1)
  from m have sub:
    "fst ` set tp' \<subseteq> insert (fst (last to_process)) (fst ` set (butlast to_process))"
    by (rule conjunct2)
  have "fst ` set (butlast to_process) \<subseteq> ?F"
    by (auto dest: in_set_butlastD)
  with aF have "insert (fst (last to_process)) (fst ` set (butlast to_process)) \<subseteq> ?F"
    by simp
  with sub have "fst ` set tp' \<subseteq> ?F"
    by (rule subset_trans)
  then have "fst ` set tp' \<times> ?B - set up' \<subseteq> ?F \<times> ?B - set up'" by auto
  then have "card (fst ` set tp' \<times> ?B - set up') \<le> card (?F \<times> ?B - set up')"
    by (intro card_mono) (simp_all add: finite_d_firsts)
  with le lt show "((d, x2), d, unit_pairs, to_process)
        \<in> measure (\<lambda>(d, up, tp). card (fst ` set tp \<times> d_firsts d - set up) + length tp)"
    by (simp add: x2 del: length_butlast)
qed

declare unit_loop.simps [simp del]

text \<open>
  \<open>get_unit_pairs\<close>.
\<close>

definition get_unit_pairs :: "cfg \<Rightarrow> py_error + (cfg_object \<times> cfg_object) list" where
  "get_unit_pairs G =
     (let unit_pairs = map (\<lambda>variable. (variable, variable)) (variables G);
          productions1 = filter (\<lambda>x. length (body x) = 1 \<and> is_Variable (body x ! 0))
                           (productions G);
          productions_d = get_productions_d productions1
      in unit_loop productions_d (unit_pairs, unit_pairs))"

section \<open>Normal form\<close>

text \<open>
  \<open>remove_useless_symbols\<close>.
\<close>

definition remove_useless_symbols :: "cfg \<Rightarrow> py_error + cfg" where
  "remove_useless_symbols G =
     (case get_generating_symbols G of
        Inl e \<Rightarrow> Inl e
      | Inr (generating, G') \<Rightarrow>
          (let productions1 =
                 filter (\<lambda>x. head x \<in> set generating
                             \<and> list_all (\<lambda>y. y \<in> set generating) (body x))
                   (productions G');
               new_var = filter (\<lambda>v. v \<in> set generating) (variables G');
               new_ter = filter (\<lambda>t. t \<in> set generating) (terminals G');
               cfg_temp = CFG_init (Some new_var) (Some new_ter) (start_symbol G')
                            (Some productions1);
               reachables = get_reachable_symbols cfg_temp;
               productions2 = filter (\<lambda>x. Some (head x) \<in> set reachables) productions1;
               new_var2 = filter (\<lambda>v. Some v \<in> set reachables) new_var;
               new_ter2 = filter (\<lambda>t. Some t \<in> set reachables) new_ter
           in Inr (CFG_init (Some new_var2) (Some new_ter2) (start_symbol G')
                     (Some productions2))))"

text \<open>
  \<open>remove_epsilon\<close>. Its helper \<open>utils_cfg.remove_nullable_production\<close> is not part
  of the sources and is called with the production and the nullable set only, so it is
  the first argument here.
\<close>

definition remove_epsilon ::
  "(production \<Rightarrow> cfg_object list \<Rightarrow> production list) \<Rightarrow> cfg \<Rightarrow> py_error + cfg" where
  "remove_epsilon remove_nullable_production G =
     (case get_nullable_symbols G of
        Inl e \<Rightarrow> Inl e
      | Inr (nullables, G') \<Rightarrow>
          Inr (CFG_init (Some (variables G')) (Some (terminals G')) (start_symbol G')
                 (Some (concat (map (\<lambda>production. remove_nullable_production production nullables)
                                  (productions G'))))))"

text \<open>
  \<open>eliminate_unit_productions\<close>.
\<close>

definition eliminate_unit_productions :: "cfg \<Rightarrow> py_error + cfg" where
  "eliminate_unit_productions G =
     (case get_unit_pairs G of
        Inl e \<Rightarrow> Inl e
      | Inr unit_pairs \<Rightarrow>
          (let productions1 =
                 filter (\<lambda>x. length (body x) \<noteq> 1 \<or> \<not> is_Variable (body x ! 0))
                   (productions G);
               productions_d = get_productions_d productions1;
               added = concat (map (\<lambda>(var_a, var_b).
                          map (\<lambda>production. Production var_a (body production) False)
                            (dict_get_list productions_d var_b)) unit_pairs)
           in Inr (CFG_init (Some (variables G)) (Some (terminals G)) (start_symbol G)
                     (Some (productions1 @ added)))))"

text \<open>
  The dict \<open>term_to_var\<close> of \<open>_get_productions_with_only_single_terminals\<close>: every
  terminal of the grammar maps to the variable named by its value followed by
  \<open>#CNF#\<close>.
\<close>

definition term_to_var :: "cfg_object list \<Rightarrow> cfg_object \<rightharpoonup> cfg_object" where
  "term_to_var ts = map_of (map (\<lambda>terminal. (terminal, Variable (cfg_value terminal @ ''#CNF#''))) ts)"

text \<open>
  The loop over a body: a symbol in \<open>term_to_var\<close> is replaced and recorded in
  \<open>used\<close>.
\<close>

fun single_terminals_body ::
  "(cfg_object \<rightharpoonup> cfg_object) \<Rightarrow> cfg_object list \<Rightarrow> cfg_object list \<times> cfg_object list \<Rightarrow>
   cfg_object list \<times> cfg_object list" where
  "single_terminals_body t2v [] st = st"
| "single_terminals_body t2v (symbol # xs) (new_body, used) =
     (case t2v symbol of
        Some var \<Rightarrow> single_terminals_body t2v xs (new_body @ [var], set_add symbol used)
      | None \<Rightarrow> single_terminals_body t2v xs (new_body @ [symbol], used))"

text \<open>
  The loop of \<open>_get_productions_with_only_single_terminals\<close> over the productions, on
  (new_productions, used).
\<close>

fun single_terminals_loop ::
  "(cfg_object \<rightharpoonup> cfg_object) \<Rightarrow> production list \<Rightarrow> production list \<times> cfg_object list \<Rightarrow>
   production list \<times> cfg_object list" where
  "single_terminals_loop t2v [] st = st"
| "single_terminals_loop t2v (production # ps) (new_productions, used) =
     (if length (body production) = 1
      then single_terminals_loop t2v ps (new_productions @ [production], used)
      else let r = single_terminals_body t2v (body production) ([], used)
           in single_terminals_loop t2v ps
                (new_productions @ [Production (head production) (fst r) True], snd r))"

text \<open>
  The final loop over \<open>used\<close>: one production from the variable to its terminal.
\<close>

fun single_terminals_used ::
  "(cfg_object \<rightharpoonup> cfg_object) \<Rightarrow> cfg_object list \<Rightarrow> py_error + production list" where
  "single_terminals_used t2v [] = Inr []"
| "single_terminals_used t2v (terminal # xs) =
     (case t2v terminal of
        None \<Rightarrow> Inl KeyError
      | Some var \<Rightarrow>
          (case single_terminals_used t2v xs of
             Inl e \<Rightarrow> Inl e
           | Inr ps \<Rightarrow> Inr (Production var [terminal] True # ps)))"

text \<open>
  \<open>_get_productions_with_only_single_terminals\<close>.
\<close>

definition get_productions_with_only_single_terminals :: "cfg \<Rightarrow> py_error + production list" where
  "get_productions_with_only_single_terminals G =
     (let t2v = term_to_var (terminals G);
          r = single_terminals_loop t2v (productions G) ([], [])
      in case single_terminals_used t2v (snd r) of
           Inl e \<Rightarrow> Inl e
         | Inr ps \<Rightarrow> Inr (fst r @ ps))"

text \<open>
  The decimal digit of a number below ten.
\<close>

definition digit_char :: "nat \<Rightarrow> char" where
  "digit_char d = ''0123456789'' ! d"

text \<open>
  \<open>str(idx)\<close> for a non-negative integer: its decimal digits.
\<close>

function str_nat :: "nat \<Rightarrow> string" where
  "str_nat n = (if n < 10 then [digit_char n] else str_nat (n div 10) @ [digit_char (n mod 10)])"
  by pat_completeness auto
termination
  by (relation "measure id") auto

declare str_nat.simps [simp del]

lemma str_nat_nonempty: "str_nat n \<noteq> []"
  by (subst str_nat.simps) simp

lemma digit_char_inj: "a < 10 \<Longrightarrow> b < 10 \<Longrightarrow> digit_char a = digit_char b \<Longrightarrow> a = b"
proof -
  assume a: "a < 10" and b: "b < 10" and e: "digit_char a = digit_char b"
  have d: "distinct ''0123456789''" by simp
  have l: "length ''0123456789'' = 10" by simp
  from nth_eq_iff_index_eq [OF d] a b e l show ?thesis
    unfolding digit_char_def by metis
qed

lemma str_nat_inj: "str_nat n = str_nat m \<Longrightarrow> n = m"
proof (induction n arbitrary: m rule: str_nat.induct)
  case (1 n)
  show ?case
  proof (cases "n < 10")
    case True
    show ?thesis
    proof (cases "m < 10")
      case m: True
      from "1.prems" True m have "digit_char n = digit_char m"
        by (simp add: str_nat.simps [of n] str_nat.simps [of m])
      with True m show ?thesis by (rule digit_char_inj)
    next
      case m: False
      from "1.prems" True m have "[digit_char n] = str_nat (m div 10) @ [digit_char (m mod 10)]"
        by (simp add: str_nat.simps [of n] str_nat.simps [of m])
      then have "str_nat (m div 10) = []" by simp
      with str_nat_nonempty show ?thesis by blast
    qed
  next
    case False
    show ?thesis
    proof (cases "m < 10")
      case m: True
      from "1.prems" False m have "str_nat (n div 10) @ [digit_char (n mod 10)] = [digit_char m]"
        by (simp add: str_nat.simps [of n] str_nat.simps [of m])
      then have "str_nat (n div 10) = []" by simp
      with str_nat_nonempty show ?thesis by blast
    next
      case m: False
      from "1.prems" False m have
        e: "str_nat (n div 10) @ [digit_char (n mod 10)] = str_nat (m div 10) @ [digit_char (m mod 10)]"
        by (simp add: str_nat.simps [of n] str_nat.simps [of m])
      then have e1: "str_nat (n div 10) = str_nat (m div 10)"
        and e2: "digit_char (n mod 10) = digit_char (m mod 10)" by simp_all
      from "1.IH" [OF False e1] have d: "n div 10 = m div 10" .
      have "n mod 10 = m mod 10"
        by (rule digit_char_inj [OF _ _ e2]) simp_all
      with d show ?thesis by (metis div_mult_mod_eq)
    qed
  qed
qed

text \<open>
  The indices from \<open>idx\<close> on whose name is taken (used to bound the loop).
\<close>

definition free_candidates :: "cfg_object list \<Rightarrow> string \<Rightarrow> nat \<Rightarrow> nat set" where
  "free_candidates vs prefix idx = {j. idx \<le> j \<and> Variable (prefix @ str_nat j) \<in> set vs}"

lemma finite_free_candidates: "finite (free_candidates vs prefix idx)"
proof -
  have inj: "inj (\<lambda>j. Variable (prefix @ str_nat j))"
    by (rule injI) (simp add: str_nat_inj)
  have "free_candidates vs prefix idx \<subseteq> (\<lambda>j. Variable (prefix @ str_nat j)) -` set vs"
    by (auto simp: free_candidates_def)
  moreover have "finite ((\<lambda>j. Variable (prefix @ str_nat j)) -` set vs)"
    by (rule finite_vimageI [OF _ inj]) simp
  ultimately show ?thesis by (rule finite_subset)
qed

text \<open>
  The \<open>while temp in self._variables\<close> loop of \<open>_get_next_free_variable\<close>, entered
  with the index already incremented.
\<close>

function next_free :: "cfg_object list \<Rightarrow> string \<Rightarrow> nat \<Rightarrow> nat \<times> cfg_object" where
  "next_free vs prefix idx =
     (if Variable (prefix @ str_nat idx) \<in> set vs then next_free vs prefix (idx + 1)
      else (idx, Variable (prefix @ str_nat idx)))"
  by pat_completeness auto
termination
proof (relation "measure (\<lambda>(vs, prefix, idx). card (free_candidates vs prefix idx))")
  show "wf (measure (\<lambda>(vs, prefix, idx). card (free_candidates vs prefix idx)))" by simp
next
  fix vs :: "cfg_object list" and prefix :: string and idx :: nat
  assume m: "Variable (prefix @ str_nat idx) \<in> set vs"
  have "free_candidates vs prefix (idx + 1) = free_candidates vs prefix idx - {idx}"
    by (auto simp: free_candidates_def)
  moreover have "idx \<in> free_candidates vs prefix idx"
    using m by (simp add: free_candidates_def)
  ultimately have "card (free_candidates vs prefix (idx + 1)) < card (free_candidates vs prefix idx)"
    using card_Diff1_less [OF finite_free_candidates, of idx vs prefix idx]
    by simp
  then show "((vs, prefix, idx + 1), vs, prefix, idx)
      \<in> measure (\<lambda>(vs, prefix, idx). card (free_candidates vs prefix idx))"
    by simp
qed

declare next_free.simps [simp del]

text \<open>
  \<open>_get_next_free_variable(idx, prefix)\<close>.
\<close>

definition get_next_free_variable :: "cfg \<Rightarrow> nat \<Rightarrow> string \<Rightarrow> nat \<times> cfg_object" where
  "get_next_free_variable G idx prefix = next_free (variables G) prefix (idx + 1)"

text \<open>
  The loop of \<open>_decompose_productions\<close> that draws \<open>len(body) - 2\<close> fresh variables:
  the index after the loop and the list \<open>new_var\<close>.
\<close>

fun next_free_variables :: "cfg \<Rightarrow> nat \<Rightarrow> nat \<Rightarrow> nat \<times> cfg_object list" where
  "next_free_variables G 0 idx = (idx, [])"
| "next_free_variables G (Suc n) idx =
     (let r = get_next_free_variable G idx ''C#CNF#'';
          rest = next_free_variables G n (fst r)
      in (fst rest, snd r # snd rest))"

type_synonym done_d = "cfg_object list \<rightharpoonup> cfg_object"

text \<open>
  The loop \<open>for i in range(len(body) - 2)\<close> of \<open>_decompose_productions\<close>: the second
  argument is \<open>body[i:]\<close> and the third \<open>new_var[i:]\<close>, so \<open>temp\<close> is the tail of the
  second. It returns new_productions, done, the current head and \<open>stopped\<close>.
\<close>

fun decompose_body ::
  "cfg_object \<Rightarrow> cfg_object list \<Rightarrow> cfg_object list \<Rightarrow> production list \<times> done_d \<Rightarrow>
   production list \<times> done_d \<times> cfg_object \<times> bool" where
  "decompose_body hd_var bod [] (new_productions, done) = (new_productions, done, hd_var, False)"
| "decompose_body hd_var bod (var # vars) (new_productions, done) =
     (case bod of
        [] \<Rightarrow> (new_productions, done, hd_var, False)
      | b # temp \<Rightarrow>
          (case done temp of
             Some d \<Rightarrow> (new_productions @ [Production hd_var [b, d] True], done, hd_var, True)
           | None \<Rightarrow>
               decompose_body var temp vars
                 (new_productions @ [Production hd_var [b, var] True], done(temp \<mapsto> var))))"

text \<open>
  The loop of \<open>_decompose_productions\<close> over the productions, on
  (idx, new_productions, done).
\<close>

fun decompose_loop ::
  "cfg \<Rightarrow> production list \<Rightarrow> nat \<times> production list \<times> done_d \<Rightarrow> production list" where
  "decompose_loop G [] (idx, new_productions, done) = new_productions"
| "decompose_loop G (production # ps) (idx, new_productions, done) =
     (if length (body production) \<le> 2
      then decompose_loop G ps (idx, new_productions @ [production], done)
      else let nv = next_free_variables G (length (body production) - 2) idx;
               r = decompose_body (head production) (body production) (snd nv)
                     (new_productions, done);
               new_productions1 = fst r;
               done1 = fst (snd r);
               hd_var = fst (snd (snd r));
               stopped = snd (snd (snd r))
           in decompose_loop G ps
                (fst nv,
                 if \<not> stopped
                 then new_productions1 @
                        [Production hd_var
                           [body production ! (length (body production) - 2),
                            body production ! (length (body production) - 1)] True]
                 else new_productions1,
                 done1))"

text \<open>
  \<open>_decompose_productions\<close>.
\<close>

definition decompose_productions :: "cfg \<Rightarrow> production list \<Rightarrow> production list" where
  "decompose_productions G ps = decompose_loop G ps (0, [], Map.empty)"

text \<open>
  The negation of the condition tested by \<open>to_normal_form\<close>: no nullable symbol, as
  many unit pairs as variables, and as many generating and as many reachable symbols as
  variables and terminals together.
\<close>

definition is_canonical ::
  "cfg \<Rightarrow> cfg_object list \<Rightarrow> (cfg_object \<times> cfg_object) list \<Rightarrow> cfg_object list \<Rightarrow>
   cfg_object option list \<Rightarrow> bool" where
  "is_canonical G nullables unit_pairs generating reachables =
     (\<not> (length nullables \<noteq> 0
         \<or> length unit_pairs \<noteq> length (variables G)
         \<or> length generating \<noteq> length (variables G) + length (terminals G)
         \<or> length reachables \<noteq> length (variables G) + length (terminals G)))"

text \<open>
  Chaining of calls that may raise.
\<close>

definition then_do :: "py_error + 'a \<Rightarrow> ('a \<Rightarrow> py_error + 'b) \<Rightarrow> py_error + 'b" where
  "then_do r f = (case r of Inl e \<Rightarrow> Inl e | Inr x \<Rightarrow> f x)"

text \<open>
  The chain \<open>self.remove_useless_symbols().remove_epsilon().remove_useless_symbols()
  .eliminate_unit_productions().remove_useless_symbols()\<close> of \<open>to_normal_form\<close>.
\<close>

definition normal_form_pipeline ::
  "(production \<Rightarrow> cfg_object list \<Rightarrow> production list) \<Rightarrow> cfg \<Rightarrow> py_error + cfg" where
  "normal_form_pipeline rnp G =
     then_do (then_do (then_do (then_do (remove_useless_symbols G)
       (remove_epsilon rnp))
       remove_useless_symbols)
       eliminate_unit_productions)
       remove_useless_symbols"

text \<open>
  \<open>to_normal_form\<close>. The recursion on the cleaned grammar need not end, so the result
  is an option: None stands for a call that never returns.
\<close>

partial_function (option) to_normal_form ::
  "(production \<Rightarrow> cfg_object list \<Rightarrow> production list) \<Rightarrow> cfg \<Rightarrow> (py_error + cfg) option" where
  "to_normal_form rnp G =
     (case get_nullable_symbols G of
        Inl e \<Rightarrow> Some (Inl e)
      | Inr (nullables, G1) \<Rightarrow>
     (case get_unit_pairs G1 of
        Inl e \<Rightarrow> Some (Inl e)
      | Inr unit_pairs \<Rightarrow>
     (case get_generating_symbols G1 of
        Inl e \<Rightarrow> Some (Inl e)
      | Inr (generating, G2) \<Rightarrow>
     (let reachables = get_reachable_symbols G2 in
      if \<not> is_canonical G2 nullables unit_pairs generating reachables
      then (if length (productions G2) = 0 then Some (Inr G2)
            else (case normal_form_pipeline rnp G2 of
                    Inl e \<Rightarrow> Some (Inl e)
                  | Inr new_cfg \<Rightarrow> to_normal_form rnp new_cfg))
      else (case get_productions_with_only_single_terminals G2 of
              Inl e \<Rightarrow> Some (Inl e)
            | Inr new_productions \<Rightarrow>
                Some (Inr (CFG_init None None (start_symbol G2)
                        (Some (remdups (decompose_productions G2 new_productions))))))))))"

section \<open>Substitution and the grammar algebra\<close>

text \<open>
  The constant \<open>SUBS_SUFFIX\<close>.
\<close>

definition SUBS_SUFFIX :: string where
  "SUBS_SUFFIX = ''#SUBS#''"

type_synonym variables_d = "cfg_object \<rightharpoonup> cfg_object"

text \<open>
  The loops of \<open>substitute\<close> that give every variable its renamed copy, on
  (idx, the renaming dict, new_vars).
\<close>

fun rename_variables ::
  "cfg_object list \<Rightarrow> nat \<times> variables_d \<times> cfg_object list \<Rightarrow> nat \<times> variables_d \<times> cfg_object list" where
  "rename_variables [] st = st"
| "rename_variables (variable # vs) (idx, d, new_vars) =
     (let temp = Variable (cfg_value variable @ SUBS_SUFFIX @ str_nat idx)
      in rename_variables vs (idx + 1, d(variable \<mapsto> temp), set_add temp new_vars))"

text \<open>
  The renamed body of a production of a substituted grammar.
\<close>

definition rename_body :: "variables_d \<Rightarrow> cfg_object list \<Rightarrow> cfg_object list" where
  "rename_body d bod = map (\<lambda>cfgobj. case d cfgobj of Some v \<Rightarrow> v | None \<Rightarrow> cfgobj) bod"

text \<open>
  The loop of \<open>substitute\<close> over the productions of a substituted grammar; a head
  missing from the renaming dict raises KeyError.
\<close>

fun rename_productions ::
  "variables_d \<Rightarrow> production list \<Rightarrow> production list \<Rightarrow> py_error + production list" where
  "rename_productions d [] acc = Inr acc"
| "rename_productions d (production # ps) acc =
     (case d (head production) of
        None \<Rightarrow> Inl KeyError
      | Some h \<Rightarrow>
          rename_productions d ps
            (acc @ [Production h (rename_body d (body production)) True]))"

text \<open>
  What the loop of \<open>substitute\<close> over \<open>substitution.items()\<close> carries: idx, new_vars,
  productions, terminals and final_replacement.
\<close>

record subst_state =
  st_idx :: nat
  st_new_vars :: "cfg_object list"
  st_productions :: "production list"
  st_terminals :: "cfg_object list"
  st_final_replacement :: variables_d

text \<open>
  The loop of \<open>substitute\<close> over \<open>substitution.items()\<close>.
\<close>

fun substitute_items :: "(cfg_object \<times> cfg) list \<Rightarrow> subst_state \<Rightarrow> py_error + subst_state" where
  "substitute_items [] st = Inr st"
| "substitute_items ((ter, cfg) # items) st =
     (let r = rename_variables (variables cfg) (st_idx st, Map.empty, st_new_vars st);
          idx = fst r;
          new_variables_d_local = fst (snd r);
          new_vars = snd (snd r)
      in case rename_productions new_variables_d_local (productions cfg) (st_productions st) of
           Inl e \<Rightarrow> Inl e
         | Inr prods \<Rightarrow>
             (case (case start_symbol cfg of None \<Rightarrow> None
                                           | Some s \<Rightarrow> new_variables_d_local s) of
                None \<Rightarrow> Inl KeyError
              | Some s' \<Rightarrow>
                  substitute_items items
                    \<lparr>st_idx = idx, st_new_vars = new_vars, st_productions = prods,
                     st_terminals = fold set_add (terminals cfg) (st_terminals st),
                     st_final_replacement = (st_final_replacement st)(ter \<mapsto> s')\<rparr>))"

text \<open>
  The rewritten body of a production of the host grammar.
\<close>

definition host_body :: "variables_d \<Rightarrow> variables_d \<Rightarrow> cfg_object list \<Rightarrow> cfg_object list" where
  "host_body new_variables_d final_replacement bod =
     map (\<lambda>cfgobj. case new_variables_d cfgobj of
                      Some v \<Rightarrow> v
                    | None \<Rightarrow> (case final_replacement cfgobj of Some v \<Rightarrow> v | None \<Rightarrow> cfgobj))
         bod"

text \<open>
  The loop of \<open>substitute\<close> over the productions of the host grammar.
\<close>

fun host_productions ::
  "variables_d \<Rightarrow> variables_d \<Rightarrow> production list \<Rightarrow> production list \<Rightarrow>
   py_error + production list" where
  "host_productions d fr [] acc = Inr acc"
| "host_productions d fr (production # ps) acc =
     (case d (head production) of
        None \<Rightarrow> Inl KeyError
      | Some h \<Rightarrow>
          host_productions d fr ps
            (acc @ [Production h (host_body d fr (body production)) True]))"

text \<open>
  \<open>substitute\<close>. The accumulated \<open>terminals\<close> is not handed to the constructor, which
  gets None for its terminals.
\<close>

definition substitute :: "cfg \<Rightarrow> (cfg_object \<times> cfg) list \<Rightarrow> py_error + cfg" where
  "substitute G substitution =
     (let r = rename_variables (variables G) (0, Map.empty, []);
          new_variables_d = fst (snd r)
      in case substitute_items substitution
                \<lparr>st_idx = fst r, st_new_vars = snd (snd r), st_productions = [],
                 st_terminals = terminals G, st_final_replacement = Map.empty\<rparr> of
           Inl e \<Rightarrow> Inl e
         | Inr st \<Rightarrow>
             (case host_productions new_variables_d (st_final_replacement st) (productions G)
                     (st_productions st) of
                Inl e \<Rightarrow> Inl e
              | Inr prods \<Rightarrow>
                  (case (case start_symbol G of None \<Rightarrow> None | Some s \<Rightarrow> new_variables_d s) of
                     None \<Rightarrow> Inl KeyError
                   | Some s' \<Rightarrow>
                       Inr (CFG_init (Some (st_new_vars st)) None (Some s')
                              (Some (remdups prods))))))"

text \<open>
  \<open>union\<close>.
\<close>

definition union :: "cfg \<Rightarrow> cfg \<Rightarrow> py_error + cfg" where
  "union G other =
     (let start_temp = Variable ''#STARTUNION#'';
          temp_0 = Terminal ''#0UNION#'';
          temp_1 = Terminal ''#1UNION#'';
          production_0 = Production start_temp [temp_0] True;
          production_1 = Production start_temp [temp_1] True;
          cfg_temp = CFG_init (Some [start_temp]) (Some [temp_0, temp_1]) (Some start_temp)
                       (Some [production_0, production_1])
      in substitute cfg_temp [(temp_0, G), (temp_1, other)])"

text \<open>
  \<open>concatenate\<close>.
\<close>

definition concatenate :: "cfg \<Rightarrow> cfg \<Rightarrow> py_error + cfg" where
  "concatenate G other =
     (let start_temp = Variable ''#STARTCONC#'';
          temp_0 = Terminal ''#0CONC#'';
          temp_1 = Terminal ''#1CONC#'';
          production0 = Production start_temp [temp_0, temp_1] True;
          cfg_temp = CFG_init (Some [start_temp]) (Some [temp_0, temp_1]) (Some start_temp)
                       (Some [production0])
      in substitute cfg_temp [(temp_0, G), (temp_1, other)])"

text \<open>
  \<open>get_closure\<close>.
\<close>

definition get_closure :: "cfg \<Rightarrow> py_error + cfg" where
  "get_closure G =
     (let start_temp = Variable ''#STARTCLOS#'';
          temp_1 = Terminal ''#1CLOS#'';
          production0 = Production start_temp [temp_1] True;
          production1 = Production start_temp [start_temp, start_temp] True;
          production2 = Production start_temp [] True;
          cfg_temp = CFG_init (Some [start_temp]) (Some [temp_1]) (Some start_temp)
                       (Some [production0, production1, production2])
      in substitute cfg_temp [(temp_1, G)])"

text \<open>
  \<open>get_positive_closure\<close>.
\<close>

definition get_positive_closure :: "cfg \<Rightarrow> py_error + cfg" where
  "get_positive_closure G =
     (let start_temp = Variable ''#STARTPOSCLOS#'';
          var_temp = Variable ''#VARPOSCLOS#'';
          temp_1 = Terminal ''#1POSCLOS#'';
          production0 = Production start_temp [temp_1, var_temp] True;
          production1 = Production var_temp [var_temp, var_temp] True;
          production2 = Production var_temp [temp_1] True;
          production3 = Production var_temp [] True;
          cfg_temp = CFG_init (Some [start_temp, var_temp]) (Some [temp_1]) (Some start_temp)
                       (Some [production0, production1, production2, production3])
      in substitute cfg_temp [(temp_1, G)])"

section \<open>Membership\<close>

text \<open>
  Modelled from the spec: the class CYKTable is not part of the sources. Section 4.3: the
  cell \<open>T[i][j]\<close> holds the variables deriving \<open>w[i..i+j]\<close>; row 0 holds the heads of
  the productions to \<open>w[i]\<close>, and row \<open>j > 0\<close> the heads of the productions \<open>A -> B C\<close>
  with \<open>B\<close> in \<open>T[i][k]\<close> and \<open>C\<close> in \<open>T[i+k+1][j-k-1]\<close> for some \<open>k < j\<close>.
\<close>

function cyk_cell :: "production list \<Rightarrow> cfg_object list \<Rightarrow> nat \<Rightarrow> nat \<Rightarrow> cfg_object list" where
  "cyk_cell P w i 0 = map head (filter (\<lambda>p. i < length w \<and> body p = [w ! i]) P)"
| "cyk_cell P w i (Suc j) =
     map head (filter (\<lambda>p. case body p of
                               [B, C] \<Rightarrow>
                                 list_ex (\<lambda>k. B \<in> set (cyk_cell P w i k)
                                            \<and> C \<in> set (cyk_cell P w (i + k + 1) (j - k)))
                                   [0..<Suc j]
                             | _ \<Rightarrow> False) P)"
  by pat_completeness auto
termination
  by (relation "measure (\<lambda>(P, w, i, j). j)") auto

text \<open>
  Modelled from the spec: \<open>CYKTable.generate_word\<close>. Section 4.3: the word is accepted
  iff the start symbol lies in \<open>T[0][n-1]\<close>.
\<close>

definition generate_word :: "cfg \<Rightarrow> cfg_object list \<Rightarrow> bool" where
  "generate_word cnf word =
     (case start_symbol cnf of
        None \<Rightarrow> False
      | Some s \<Rightarrow> s \<in> set (cyk_cell (productions cnf) word 0 (length word - 1)))"

text \<open>
  \<open>contains\<close>. \<open>CYKTable(self, word)\<close> is handed the grammar itself and works on its
  normal form (section 4.3 and property 4 of section 8).
\<close>

definition contains ::
  "(production \<Rightarrow> cfg_object list \<Rightarrow> production list) \<Rightarrow> cfg \<Rightarrow> cfg_object list \<Rightarrow>
   (py_error + bool) option" where
  "contains rnp G word0 =
     (let word = map to_terminal (filter (\<lambda>x. x \<noteq> Epsilon) word0)
      in if word = []
         then (case generate_epsilon G of Inl e \<Rightarrow> Some (Inl e) | Inr (b, G') \<Rightarrow> Some (Inr b))
         else (case to_normal_form rnp G of
                 None \<Rightarrow> None
               | Some (Inl e) \<Rightarrow> Some (Inl e)
               | Some (Inr cnf) \<Rightarrow> Some (Inr (generate_word cnf word))))"

section \<open>Intersection with a finite automaton\<close>

text \<open>
  Modelled from the spec: the finite automaton is an external collaborator. Section 6
  gives what it exposes: its states, start states and final states, the transition
  function called as \<open>other(state, value)\<close> and returning the list of next states,
  whether it is deterministic, whether its language is empty, and whether it accepts a
  word.
\<close>

record 'q finite_automaton =
  states :: "'q list"
  start_states :: "'q list"
  final_states :: "'q list"
  transition :: "'q \<Rightarrow> string \<Rightarrow> 'q list"
  is_deterministic :: bool
  is_empty :: bool
  accepts :: "string list \<Rightarrow> bool"

text \<open>
  The operand of \<open>intersection\<close>: a regular expression, a finite automaton, or any
  other object.
\<close>

datatype ('r, 'q) operand = Regex 'r | FiniteAutomaton "'q finite_automaton" | OtherObject

type_synonym 'q converter = "'q \<Rightarrow> cfg_object option \<Rightarrow> 'q \<Rightarrow> cfg_object"

text \<open>
  \<open>_get_all_bodies\<close>. The converter of combined variables is not part of the sources
  and is an argument: \<open>cv p X r\<close> is \<open>cv_converter.to_cfg_combined_variable(p, X, r)\<close>,
  where \<open>X\<close> may be the None start symbol.
\<close>

definition get_all_bodies ::
  "production \<Rightarrow> 'q \<Rightarrow> 'q \<Rightarrow> 'q list \<Rightarrow> 'q converter \<Rightarrow> cfg_object list list" where
  "get_all_bodies production state_p state_r sts cv =
     map (\<lambda>state_q. [cv state_p (Some (body production ! 0)) state_q,
                      cv state_q (Some (body production ! 1)) state_r]) sts"

text \<open>
  \<open>_intersection_when_two_non_terminals\<close>.
\<close>

definition intersection_when_two_non_terminals ::
  "production \<Rightarrow> 'q list \<Rightarrow> 'q converter \<Rightarrow> production list" where
  "intersection_when_two_non_terminals production sts cv =
     concat (map (\<lambda>state_p. concat (map (\<lambda>state_r.
        map (\<lambda>bod. Production (cv state_p (Some (head production)) state_r) bod False)
          (get_all_bodies production state_p state_r sts cv)) sts)) sts)"

text \<open>
  \<open>_intersection_when_terminal\<close>, as a loop over the states; \<open>production.body[0]\<close>
  raises IndexError on an empty body.
\<close>

fun intersection_when_terminal ::
  "'q finite_automaton \<Rightarrow> production \<Rightarrow> 'q converter \<Rightarrow> 'q list \<Rightarrow> py_error + production list" where
  "intersection_when_terminal other_fst production cv [] = Inr []"
| "intersection_when_terminal other_fst production cv (state_p # sts) =
     (case body production of
        [] \<Rightarrow> Inl IndexError
      | b # bs \<Rightarrow>
          (let next_states = transition other_fst state_p (cfg_value b);
               here = (case next_states of
                         [] \<Rightarrow> []
                       | n # ns \<Rightarrow>
                           [Production (cv state_p (Some (head production)) n) [b] False])
           in case intersection_when_terminal other_fst production cv sts of
                Inl e \<Rightarrow> Inl e
              | Inr ps \<Rightarrow> Inr (here @ ps)))"

text \<open>
  \<open>_intersection_starting_rules\<close>; \<open>list(other.start_states)[0]\<close> raises IndexError
  when there is no start state.
\<close>

definition intersection_starting_rules ::
  "cfg \<Rightarrow> 'q finite_automaton \<Rightarrow> 'q converter \<Rightarrow> py_error + production list" where
  "intersection_starting_rules cfg other cv =
     (case start_states other of
        [] \<Rightarrow> Inl IndexError
      | start_other # rest \<Rightarrow>
          Inr (map (\<lambda>final_state.
                 Production (Variable ''Start'') [cv start_other (start_symbol cfg) final_state] False)
               (final_states other)))"

text \<open>
  The loop of \<open>intersection\<close> over the productions of the normal form.
\<close>

fun intersection_productions ::
  "'q finite_automaton \<Rightarrow> 'q converter \<Rightarrow> 'q list \<Rightarrow> production list \<Rightarrow>
   py_error + production list" where
  "intersection_productions other cv sts [] = Inr []"
| "intersection_productions other cv sts (production # ps) =
     (case (if length (body production) = 2
            then Inr (intersection_when_two_non_terminals production sts cv)
            else intersection_when_terminal other production cv sts) of
        Inl e \<Rightarrow> Inl e
      | Inr here \<Rightarrow>
          (case intersection_productions other cv sts ps of
             Inl e \<Rightarrow> Inl e
           | Inr rest \<Rightarrow> Inr (here @ rest)))"

text \<open>
  \<open>intersection\<close>. The compilation of a regular expression and the determinisation
  are external and are arguments.
\<close>

definition intersection ::
  "(production \<Rightarrow> cfg_object list \<Rightarrow> production list) \<Rightarrow> ('r \<Rightarrow> 'q finite_automaton) \<Rightarrow>
   ('q finite_automaton \<Rightarrow> 'q finite_automaton) \<Rightarrow> 'q converter \<Rightarrow>
   cfg \<Rightarrow> ('r, 'q) operand \<Rightarrow> (py_error + cfg) option" where
  "intersection rnp to_epsilon_nfa to_deterministic cv G other0 =
     (case (case other0 of
              Regex r \<Rightarrow> Inr (to_deterministic (to_epsilon_nfa r))
            | FiniteAutomaton fa \<Rightarrow>
                Inr (if \<not> is_deterministic fa then to_deterministic fa else fa)
            | OtherObject \<Rightarrow> Inl NotImplementedError) of
        Inl e \<Rightarrow> Some (Inl e)
      | Inr other \<Rightarrow>
          if is_empty other then Some (Inr (CFG_init None None None None))
          else
            (case contains rnp G [] of
               None \<Rightarrow> None
             | Some (Inl e) \<Rightarrow> Some (Inl e)
             | Some (Inr contains_empty) \<Rightarrow>
                 (let generate_empty = (contains_empty \<and> accepts other [])
                  in case to_normal_form rnp G of
                       None \<Rightarrow> None
                     | Some (Inl e) \<Rightarrow> Some (Inl e)
                     | Some (Inr cfg) \<Rightarrow>
                         (case intersection_productions other cv (states other)
                                 (productions cfg) of
                            Inl e \<Rightarrow> Some (Inl e)
                          | Inr new_productions \<Rightarrow>
                              (case intersection_starting_rules cfg other cv of
                                 Inl e \<Rightarrow> Some (Inl e)
                               | Inr starting \<Rightarrow>
                                   Some (Inr (CFG_init None None (Some (Variable ''Start''))
                                     (Some (new_productions @ starting @
                                        (if generate_empty
                                         then [Production (Variable ''Start'') [] True]
                                         else []))))))))))"

section \<open>Enumeration of words\<close>

type_synonym word = "cfg_object list"
type_synonym gen_d_t = "(cfg_object, word list list) fmap"

text \<open>
  The loop of \<open>get_words\<close> over a body of length two that enters its symbols in
  \<open>gen_d\<close>.
\<close>

fun gen_init_body :: "cfg_object list \<Rightarrow> gen_d_t \<Rightarrow> gen_d_t" where
  "gen_init_body [] d = d"
| "gen_init_body (obj # xs) d =
     gen_init_body xs (if fmlookup d obj = None then fmupd obj [[]] d else d)"

text \<open>
  The first loop of \<open>get_words\<close> over the productions.
\<close>

fun gen_init :: "production list \<Rightarrow> gen_d_t \<Rightarrow> gen_d_t" where
  "gen_init [] d = d"
| "gen_init (production # ps) d =
     (let d1 = (if fmlookup d (head production) = None then fmupd (head production) [[]] d else d);
          d2 = (if length (body production) = 2 then gen_init_body (body production) d1 else d1)
      in gen_init ps d2)"

text \<open>
  The second loop of \<open>get_words\<close> (words of length one), on \<open>gen_d\<close> and the list of
  the words yielded so far.
\<close>

fun gen_single ::
  "cfg_object option \<Rightarrow> production list \<Rightarrow> gen_d_t \<times> word list \<Rightarrow> py_error + gen_d_t \<times> word list" where
  "gen_single start [] st = Inr st"
| "gen_single start (production # ps) (d, out) =
     (if length (body production) = 1
      then (case fmlookup d (head production) of
              None \<Rightarrow> Inl KeyError
            | Some l \<Rightarrow>
                (let l1 = (if length l = 1 then l @ [[]] else l)
                 in if l1 = [] then Inl IndexError
                    else if body production \<notin> set (last l1)
                    then gen_single start ps
                           (fmupd (head production)
                              (butlast l1 @ [last l1 @ [body production]]) d,
                            if Some (head production) = start then out @ [body production]
                            else out)
                    else gen_single start ps (fmupd (head production) l1 d, out)))
      else gen_single start ps (d, out))"

type_synonym words_state = "gen_d_t \<times> word list \<times> bool"

text \<open>
  The innermost loop of \<open>get_words\<close>, over \<open>right\<close>; the state is \<open>gen_d\<close>, the
  words yielded so far and \<open>was_modified\<close>.
\<close>

fun add_rights ::
  "cfg_object option \<Rightarrow> cfg_object \<Rightarrow> word \<Rightarrow> word list \<Rightarrow> words_state \<Rightarrow> py_error + words_state" where
  "add_rights start h left [] st = Inr st"
| "add_rights start h left (right # rs) (d, out, was_modified) =
     (let new_word = left @ right
      in case fmlookup d h of
           None \<Rightarrow> Inl KeyError
         | Some l \<Rightarrow>
             if l = [] then Inl IndexError
             else if new_word \<notin> set (last l)
             then add_rights start h left rs
                    (fmupd h (butlast l @ [last l @ [new_word]]) d,
                     if Some h = start then out @ [new_word] else out, True)
             else add_rights start h left rs (d, out, was_modified))"

text \<open>
  The loop of \<open>get_words\<close> over \<open>left\<close>.
\<close>

fun add_lefts ::
  "cfg_object option \<Rightarrow> cfg_object \<Rightarrow> cfg_object \<Rightarrow> nat \<Rightarrow> word list \<Rightarrow> words_state \<Rightarrow>
   py_error + words_state" where
  "add_lefts start h b1 j [] st = Inr st"
| "add_lefts start h b1 j (left # ls) (d, out, was_modified) =
     (case fmlookup d b1 of
        None \<Rightarrow> Inl KeyError
      | Some l \<Rightarrow>
          if j < length l
          then (case add_rights start h left (l ! j) (d, out, was_modified) of
                  Inl e \<Rightarrow> Inl e
                | Inr st \<Rightarrow> add_lefts start h b1 j ls st)
          else Inl IndexError)"

text \<open>
  The loop \<open>for i in range(1, current_length)\<close> of \<open>get_words\<close>.
\<close>

fun combine ::
  "cfg_object option \<Rightarrow> cfg_object \<Rightarrow> cfg_object \<Rightarrow> cfg_object \<Rightarrow> nat \<Rightarrow> nat list \<Rightarrow>
   words_state \<Rightarrow> py_error + words_state" where
  "combine start h b0 b1 current_length [] st = Inr st"
| "combine start h b0 b1 current_length (i # is) (d, out, was_modified) =
     (case fmlookup d b0 of
        None \<Rightarrow> Inl KeyError
      | Some l \<Rightarrow>
          if i < length l
          then (case add_lefts start h b1 (current_length - i) (l ! i) (d, out, was_modified) of
                  Inl e \<Rightarrow> Inl e
                | Inr st \<Rightarrow> combine start h b0 b1 current_length is st)
          else Inl IndexError)"

text \<open>
  The loop of \<open>get_words\<close> over the productions, inside the \<open>while\<close> loop.
\<close>

fun words_productions ::
  "cfg_object option \<Rightarrow> nat \<Rightarrow> production list \<Rightarrow> words_state \<Rightarrow> py_error + words_state" where
  "words_productions start current_length [] st = Inr st"
| "words_productions start current_length (production # ps) (d, out, was_modified) =
     (case fmlookup d (head production) of
        None \<Rightarrow> Inl KeyError
      | Some l \<Rightarrow>
          (let d1 = (if length l \<noteq> current_length + 1
                     then fmupd (head production) (l @ [[]]) d else d)
           in if length (body production) \<noteq> 2
              then words_productions start current_length ps (d1, out, was_modified)
              else (case combine start (head production) (body production ! 0)
                           (body production ! 1) current_length [1..<current_length]
                           (d1, out, was_modified) of
                      Inl e \<Rightarrow> Inl e
                    | Inr st \<Rightarrow> words_productions start current_length ps st)))"

text \<open>
  The \<open>while\<close> loop of \<open>get_words\<close>. With \<open>max_length = -1\<close> it may run forever, so it
  takes fuel: the result is the list of the words yielded and whether the generator
  finished (True) or the fuel ran out (False). \<open>total_no_modification > current_length / 2\<close>
  is tested on integers as \<open>2 * total_no_modification > current_length\<close>.
\<close>

fun words_loop ::
  "nat \<Rightarrow> int \<Rightarrow> cfg_object option \<Rightarrow> production list \<Rightarrow> nat \<Rightarrow> nat \<Rightarrow> gen_d_t \<times> word list \<Rightarrow>
   py_error + word list \<times> bool" where
  "words_loop fuel max_length start ps current_length total_no_modification (d, out) =
     (if \<not> (int current_length \<le> max_length \<or> max_length = - 1) then Inr (out, True)
      else case fuel of
             0 \<Rightarrow> Inr (out, False)
           | Suc fuel' \<Rightarrow>
               (let d1 = fmmap (\<lambda>l. if length l \<noteq> current_length then l @ [[]] else l) d
                in case words_productions start current_length ps (d1, out, False) of
                     Inl e \<Rightarrow> Inl e
                   | Inr (d2, out2, was_modified) \<Rightarrow>
                       (let total = (if was_modified then 0 else total_no_modification + 1)
                        in if 2 * total > current_length + 1 then Inr (out2, True)
                           else words_loop fuel' max_length start ps (current_length + 1) total
                                  (d2, out2))))"

text \<open>
  \<open>get_words(max_length)\<close>: the words yielded, in order.
\<close>

definition get_words ::
  "(production \<Rightarrow> cfg_object list \<Rightarrow> production list) \<Rightarrow> nat \<Rightarrow> cfg \<Rightarrow> int \<Rightarrow>
   (py_error + word list \<times> bool) option" where
  "get_words rnp fuel G max_length =
     (case get_nullable_symbols G of
        Inl e \<Rightarrow> Some (Inl e)
      | Inr (nullables, G1) \<Rightarrow>
          (let out0 = (if (case start_symbol G1 of None \<Rightarrow> False | Some s \<Rightarrow> s \<in> set nullables)
                       then [[]] else [])
           in if max_length = 0 then Some (Inr (out0, True))
              else (case to_normal_form rnp G1 of
                      None \<Rightarrow> None
                    | Some (Inl e) \<Rightarrow> Some (Inl e)
                    | Some (Inr cfg) \<Rightarrow>
                        (case gen_single (start_symbol cfg) (productions cfg)
                                (gen_init (productions cfg) fmempty, out0) of
                           Inl e \<Rightarrow> Some (Inl e)
                         | Inr st \<Rightarrow>
                             Some (words_loop fuel max_length (start_symbol cfg)
                                     (productions cfg) 2 0 st)))))"

section \<open>Removal of nullable symbols from a production\<close>

text \<open>
  Modelled from the spec: \<open>utils_cfg.remove_nullable_production\<close> is not part of the
  sources. Section 4.2 (step 2): every body obtained by independently keeping or
  dropping each nullable occurrence.
\<close>

fun remove_nullable_bodies :: "cfg_object list \<Rightarrow> cfg_object list \<Rightarrow> cfg_object list list" where
  "remove_nullable_bodies [] nullables = [[]]"
| "remove_nullable_bodies (x # xs) nullables =
     (let rest = remove_nullable_bodies xs nullables
      in (if x \<in> set nullables then rest else []) @ map ((#) x) rest)"

text \<open>
  Modelled from the spec: \<open>utils_cfg.remove_nullable_production\<close>. Section 4.2 (step 2):
  the productions of these bodies, duplicates collapsed, without the empty body unless
  the head is the start symbol. The code calls the helper with the production and the
  nullable set; the start symbol is the first argument here.
\<close>

definition remove_nullable_production ::
  "cfg_object option \<Rightarrow> production \<Rightarrow> cfg_object list \<Rightarrow> production list" where
  "remove_nullable_production start p nullables =
     map (\<lambda>b. Production (head p) b True)
       (filter (\<lambda>b. b \<noteq> [] \<or> Some (head p) = start)
          (remdups (remove_nullable_bodies (body p) nullables)))"

text \<open>The equation of \<open>to_normal_form\<close>, for evaluation.\<close>

declare to_normal_form.simps [code]

section \<open>Properties of the recursive automaton\<close>

lemma init_boxes_labels:
  "set (snd (init_boxes ts bs (bx, ls))) = set ls \<union> label ` set bs"
  by (induction bs arbitrary: bx ls) (auto simp: set_set_add)

lemma init_boxes_dom:
  "dom (fst (init_boxes ts bs (bx, ls))) = dom bx \<union> (\<lambda>b. ts (label b)) ` set bs"
  by (induction bs arbitrary: bx ls) auto

lemma init_boxes_carries:
  "fst (init_boxes ts bs (bx, ls)) k = Some b \<Longrightarrow>
   (bx k = Some b) \<or> (b \<in> set bs \<and> ts (label b) = k)"
proof (induction bs arbitrary: bx ls)
  case Nil
  then show ?case by simp
next
  case (Cons a bs)
  from Cons.prems have
    "fst (init_boxes ts bs (bx(ts (label a) \<mapsto> a), set_add (label a) ls)) k = Some b"
    by simp
  from Cons.IH [OF this] show ?case
    by (cases "k = ts (label a)") auto
qed

lemma check_labels_error:
  "check_labels ts r ls = Inl e \<Longrightarrow> e = ValueError"
  by (induction ls) (auto split: option.splits)

lemma check_labels_iff:
  "(check_labels ts r ls = Inl ValueError) = (\<exists>l \<in> set ls. get_box ts r l = None)"
  by (induction ls) (auto split: option.splits)

lemma check_labels_ok:
  "(check_labels ts r ls = Inr ()) = (\<forall>l \<in> set ls. get_box ts r l \<noteq> None)"
  by (induction ls) (auto split: option.splits)

lemma init_labels_eq:
  "set (snd (case boxes0 of None \<Rightarrow> (Map.empty, ls2)
                          | Some bs \<Rightarrow> init_boxes ts bs (Map.empty, ls2)))
   = set ls2 \<union> label ` set (given_boxes boxes0)"
  by (cases boxes0) (simp_all add: given_boxes_def init_boxes_labels)

lemma init_dom_eq:
  "dom (fst (case boxes0 of None \<Rightarrow> (Map.empty, ls2)
                          | Some bs \<Rightarrow> init_boxes ts bs (Map.empty, ls2)))
   = (\<lambda>b. ts (label b)) ` set (given_boxes boxes0)"
  by (cases boxes0) (simp_all add: given_boxes_def init_boxes_dom)

text \<open>
  C7. The construction fails, and then with ValueError, exactly when some label of the
  declared label set (the given labels, the given initial label, the labels of the given
  boxes) has no given box carrying that label (labels compared after conversion); when
  it succeeds, the label set is the declared one and every label of it maps to exactly
  one box, a given box that carries the label.
\<close>

theorem RecursiveAutomaton_init_ValueError_iff:
  "((\<exists>e. RecursiveAutomaton_init ts labels0 initial_label0 (boxes0 :: 'd box list option) = Inl e)
      \<longleftrightarrow> (\<exists>l \<in> declared_labels ts labels0 initial_label0 boxes0.
             \<forall>b \<in> set (given_boxes boxes0). ts (label b) \<noteq> ts l))
   \<and> (\<forall>e. RecursiveAutomaton_init ts labels0 initial_label0 boxes0 = Inl e \<longrightarrow> e = ValueError)
   \<and> (\<forall>r. RecursiveAutomaton_init ts labels0 initial_label0 boxes0 = Inr r \<longrightarrow>
          set (labels r) = declared_labels ts labels0 initial_label0 boxes0
        \<and> (\<forall>l \<in> set (labels r). \<exists>!b. get_box ts r l = Some b)
        \<and> (\<forall>l \<in> set (labels r). \<forall>b. get_box ts r l = Some b \<longrightarrow>
              b \<in> set (given_boxes boxes0) \<and> ts (label b) = ts l))"
proof -
  define ls1 where "ls1 = (case labels0 of None \<Rightarrow> [] | Some ls \<Rightarrow> remdups (map ts ls))"
  define ls2 where
    "ls2 = (case initial_label0 of None \<Rightarrow> ls1 | Some i \<Rightarrow> set_add (ts i) ls1)"
  define ini where "ini = (case initial_label0 of None \<Rightarrow> Symbol [] | Some i \<Rightarrow> ts i)"
  define st where
    "st = (case boxes0 of None \<Rightarrow> (Map.empty, ls2)
                        | Some bs \<Rightarrow> init_boxes ts bs (Map.empty :: symbol \<rightharpoonup> 'd box, ls2))"
  define r0 where "r0 = \<lparr>labels = snd st, initial_label = ini, boxes = fst st\<rparr>"
  have run: "RecursiveAutomaton_init ts labels0 initial_label0 boxes0 =
      (case check_labels ts r0 (labels r0) of Inl e \<Rightarrow> Inl e | Inr u \<Rightarrow> Inr r0)"
    unfolding RecursiveAutomaton_init_def Let_def r0_def st_def ini_def ls2_def ls1_def
    by (rule refl)
  have s1: "set ls1 = ts ` (case labels0 of None \<Rightarrow> {} | Some ls \<Rightarrow> set ls)"
    by (cases labels0) (simp_all add: ls1_def)
  have s2: "set ls2 = set ls1 \<union> ts ` (case initial_label0 of None \<Rightarrow> {} | Some i \<Rightarrow> {i})"
    by (cases initial_label0) (auto simp: ls2_def set_set_add)
  have labs: "set (labels r0) = declared_labels ts labels0 initial_label0 boxes0"
    using init_labels_eq [where ?boxes0.0 = boxes0 and ?ls2.0 = ls2 and ts = ts] s1 s2
    by (cases boxes0) (auto simp: r0_def st_def declared_labels_def given_boxes_def)
  have doms: "dom (boxes r0) = (\<lambda>b. ts (label b)) ` set (given_boxes boxes0)"
    using init_dom_eq [where ?boxes0.0 = boxes0 and ?ls2.0 = ls2 and ts = ts] by (simp add: r0_def st_def)
  have none: "get_box ts r0 l = None \<longleftrightarrow> (\<forall>b \<in> set (given_boxes boxes0). ts (label b) \<noteq> ts l)"
    for l
  proof -
    have "get_box ts r0 l = None \<longleftrightarrow> ts l \<notin> dom (boxes r0)"
      by (auto simp: get_box_def)
    also have "\<dots> \<longleftrightarrow> (\<forall>b \<in> set (given_boxes boxes0). ts (label b) \<noteq> ts l)"
      unfolding doms by (auto simp: image_iff)
    finally show ?thesis .
  qed
  have carries: "b \<in> set (given_boxes boxes0) \<and> ts (label b) = ts l"
    if "get_box ts r0 l = Some b" for l b
  proof (cases boxes0)
    case None
    with that show ?thesis by (simp add: get_box_def r0_def st_def)
  next
    case (Some bs)
    with that have "fst (init_boxes ts bs (Map.empty, ls2)) (ts l) = Some b"
      by (simp add: get_box_def r0_def st_def)
    from init_boxes_carries [OF this] Some show ?thesis
      by (simp add: given_boxes_def)
  qed
  have fails: "(\<exists>e. RecursiveAutomaton_init ts labels0 initial_label0 boxes0 = Inl e)
      \<longleftrightarrow> (\<exists>l \<in> declared_labels ts labels0 initial_label0 boxes0.
             \<forall>b \<in> set (given_boxes boxes0). ts (label b) \<noteq> ts l)"
  proof -
    have "(\<exists>e. RecursiveAutomaton_init ts labels0 initial_label0 boxes0 = Inl e)
        \<longleftrightarrow> check_labels ts r0 (labels r0) = Inl ValueError"
      unfolding run using check_labels_error [of ts r0 "labels r0"]
      by (cases "check_labels ts r0 (labels r0)") auto
    also have "\<dots> \<longleftrightarrow> (\<exists>l \<in> set (labels r0). get_box ts r0 l = None)"
      by (rule check_labels_iff)
    finally show ?thesis unfolding labs none .
  qed
  have only: "e = ValueError"
    if "RecursiveAutomaton_init ts labels0 initial_label0 boxes0 = Inl e" for e
    using that check_labels_error [of ts r0 "labels r0"] unfolding run
    by (cases "check_labels ts r0 (labels r0)") auto
  have good: "set (labels r) = declared_labels ts labels0 initial_label0 boxes0
        \<and> (\<forall>l \<in> set (labels r). \<exists>!b. get_box ts r l = Some b)
        \<and> (\<forall>l \<in> set (labels r). \<forall>b. get_box ts r l = Some b \<longrightarrow>
              b \<in> set (given_boxes boxes0) \<and> ts (label b) = ts l)"
    if "RecursiveAutomaton_init ts labels0 initial_label0 boxes0 = Inr r" for r
  proof -
    from that have r: "r = r0" and ok: "check_labels ts r0 (labels r0) = Inr ()"
      unfolding run by (cases "check_labels ts r0 (labels r0)"; simp)+
    from ok have "\<forall>l \<in> set (labels r0). get_box ts r0 l \<noteq> None"
      by (simp add: check_labels_ok)
    then have "\<forall>l \<in> set (labels r0). \<exists>!b. get_box ts r0 l = Some b"
      by auto
    with labs carries show ?thesis unfolding r by blast
  qed
  from fails only good show ?thesis by blast
qed

text \<open>
  A construction that succeeds (one label, its box) and one that fails (a label with
  no box), through the theorem.
\<close>

theorem RecursiveAutomaton_init_ValueError_iff_witness:
  "(\<exists>r. RecursiveAutomaton_init id (Some [Symbol ''S'']) (Some (Symbol ''S''))
          (Some [\<lparr>label = Symbol ''S'', dfa = ()\<rparr>]) = Inr r
        \<and> set (labels r) = {Symbol ''S''}
        \<and> get_box id r (Symbol ''S'') = Some \<lparr>label = Symbol ''S'', dfa = ()\<rparr>)
   \<and> RecursiveAutomaton_init id (Some [Symbol ''S'', Symbol ''A'']) (Some (Symbol ''S''))
          (Some [\<lparr>label = Symbol ''S'', dfa = ()\<rparr>]) = Inl ValueError"
proof -
  let ?b = "\<lparr>label = Symbol ''S'', dfa = ()\<rparr>"
  have d1: "declared_labels id (Some [Symbol ''S'']) (Some (Symbol ''S'')) (Some [?b])
      = {Symbol ''S''}"
    by (simp add: declared_labels_def)
  have "\<not> (\<exists>e. RecursiveAutomaton_init id (Some [Symbol ''S'']) (Some (Symbol ''S''))
          (Some [?b]) = Inl e)"
    using RecursiveAutomaton_init_ValueError_iff
      [of id "Some [Symbol ''S'']" "Some (Symbol ''S'')" "Some [?b]"]
    by (simp add: d1 given_boxes_def)
  then obtain r where r: "RecursiveAutomaton_init id (Some [Symbol ''S''])
      (Some (Symbol ''S'')) (Some [?b]) = Inr r"
    by (cases "RecursiveAutomaton_init id (Some [Symbol ''S''])
      (Some (Symbol ''S'')) (Some [?b])") auto
  from r have p: "set (labels r) = {Symbol ''S''}
      \<and> (\<exists>!b. get_box id r (Symbol ''S'') = Some b)
      \<and> (\<forall>b. get_box id r (Symbol ''S'') = Some b \<longrightarrow> b = ?b)"
    using RecursiveAutomaton_init_ValueError_iff
      [of id "Some [Symbol ''S'']" "Some (Symbol ''S'')" "Some [?b]"]
    by (simp add: d1 given_boxes_def)
  then have g: "get_box id r (Symbol ''S'') = Some ?b" by blast
  have d2: "Symbol ''A'' \<in> declared_labels id (Some [Symbol ''S'', Symbol ''A''])
      (Some (Symbol ''S'')) (Some [?b])"
    by (simp add: declared_labels_def)
  have "\<exists>e. RecursiveAutomaton_init id (Some [Symbol ''S'', Symbol ''A''])
      (Some (Symbol ''S'')) (Some [?b]) = Inl e"
    using RecursiveAutomaton_init_ValueError_iff
      [of id "Some [Symbol ''S'', Symbol ''A'']" "Some (Symbol ''S'')" "Some [?b]"] d2
    by (auto simp: given_boxes_def)
  then have f: "RecursiveAutomaton_init id (Some [Symbol ''S'', Symbol ''A''])
      (Some (Symbol ''S'')) (Some [?b]) = Inl ValueError"
    using RecursiveAutomaton_init_ValueError_iff
      [of id "Some [Symbol ''S'', Symbol ''A'']" "Some (Symbol ''S'')" "Some [?b]"]
    by blast
  from r p g f show ?thesis by blast
qed

text \<open>
  C8. For a label already in the label set, \<open>change_initial_label\<close> returns without
  error and hands back the automaton as it was: initial label, labels and boxes are
  unchanged (the new initial label is never assigned).
\<close>

theorem change_initial_label_unchanged:
  "ts l \<in> set (labels r) \<Longrightarrow>
   \<exists>r'. change_initial_label ts r l = Inr r'
      \<and> initial_label r' = initial_label r \<and> labels r' = labels r \<and> boxes r' = boxes r"
  by (simp add: change_initial_label_def)

theorem change_initial_label_unchanged_witness:
  "\<exists>r'. change_initial_label id
      \<lparr>labels = [Symbol ''S'', Symbol ''A''], initial_label = Symbol ''S'',
       boxes = [Symbol ''S'' \<mapsto> \<lparr>label = Symbol ''S'', dfa = ()\<rparr>,
                Symbol ''A'' \<mapsto> \<lparr>label = Symbol ''A'', dfa = ()\<rparr>]\<rparr> (Symbol ''A'') = Inr r'
      \<and> initial_label r' = Symbol ''S''"
  using change_initial_label_unchanged [of id "Symbol ''A''"
      "\<lparr>labels = [Symbol ''S'', Symbol ''A''], initial_label = Symbol ''S'',
       boxes = [Symbol ''S'' \<mapsto> \<lparr>label = Symbol ''S'', dfa = ()\<rparr>,
                Symbol ''A'' \<mapsto> \<lparr>label = Symbol ''A'', dfa = ()\<rparr>]\<rparr>"]
  by auto

section \<open>Facts about the constructor\<close>

lemma CFG_init_fresh:
  "generating_symbols (CFG_init v t s p) = None"
  "nullable_symbols (CFG_init v t s p) = None"
  "impacts (CFG_init v t s p) = None"
  "remaining_lists (CFG_init v t s p) = None"
  "added_impacts (CFG_init v t s p) = None"
  by (simp_all add: CFG_init_def Let_def)

lemma CFG_init_productions:
  "productions (CFG_init v t s p) = (case p of None \<Rightarrow> [] | Some ps \<Rightarrow> ps)"
  by (simp add: CFG_init_def Let_def)


section \<open>The counter table is restored\<close>

definition valid_entry :: "remaining_t \<Rightarrow> cfg_object \<times> nat \<Rightarrow> bool" where
  "valid_entry rem e = (case fmlookup rem (fst e) of None \<Rightarrow> False | Some xs \<Rightarrow> snd e < length xs)"

definition valid_impacts :: "remaining_t \<Rightarrow> impacts_t \<Rightarrow> bool" where
  "valid_impacts rem imp = (\<forall>s l. fmlookup imp s = Some l \<longrightarrow> list_all (valid_entry rem) l)"

definition same_shape :: "remaining_t \<Rightarrow> remaining_t \<Rightarrow> bool" where
  "same_shape rem rem' = (\<forall>h. map_option length (fmlookup rem h) = map_option length (fmlookup rem' h))"

lemma same_shape_refl: "same_shape r r"
  by (simp add: same_shape_def)

lemma same_shape_trans: "same_shape a b \<Longrightarrow> same_shape b c \<Longrightarrow> same_shape a c"
  by (simp add: same_shape_def)

lemma same_shape_valid_entry: "same_shape a b \<Longrightarrow> valid_entry a e = valid_entry b e"
proof -
  assume s: "same_shape a b"
  then have "map_option length (fmlookup a (fst e)) = map_option length (fmlookup b (fst e))"
    by (simp add: same_shape_def)
  then show ?thesis
    by (cases "fmlookup a (fst e)"; cases "fmlookup b (fst e)") (auto simp: valid_entry_def)
qed

lemma same_shape_valid_impacts: "same_shape a b \<Longrightarrow> valid_impacts a imp = valid_impacts b imp"
  using same_shape_valid_entry [of a b] by (simp add: valid_impacts_def cong: list.pred_cong)

lemma counter_add_shape: "counter_add d h i rem = Inr (v, rem') \<Longrightarrow> same_shape rem rem'"
  by (auto simp: counter_add_def same_shape_def split: option.splits if_splits)

lemma counter_add_valid:
  "valid_entry rem (h, i) \<Longrightarrow> \<exists>v rem'. counter_add d h i rem = Inr (v, rem')"
  by (auto simp: counter_add_def valid_entry_def split: option.splits)

lemma fmupd_same: "fmlookup m k = Some v \<Longrightarrow> fmupd k v m = m"
  by (rule fmap_ext) auto

lemma counter_add_inverse:
  "counter_add d h i rem = Inr (v, rem') \<Longrightarrow> counter_add (- d) h i rem' = Inr (v - d, rem)"
  by (auto simp: counter_add_def fmupd_same split: option.splits if_splits)

lemma counter_add_diamond:
  assumes "counter_add d h i rem = Inr (v, r1)" and "counter_add e k j rem = Inr (w, r2)"
  shows "\<exists>v' w' r3. counter_add e k j r1 = Inr (w', r3) \<and> counter_add d h i r2 = Inr (v', r3)"
proof (cases "h = k")
  case False
  with assms show ?thesis
    by (auto simp: counter_add_def fmupd_reorder_neq split: option.splits if_splits)
next
  case True
  with assms show ?thesis
    by (cases "i = j")
       (auto simp: counter_add_def list_update_swap add.commute add.left_commute
             split: option.splits if_splits)
qed

lemma restore_commute:
  "counter_add d h i rem = Inr (v, rem1) \<Longrightarrow> restore pm rem = Inr r0 \<Longrightarrow>
   \<exists>v' r. restore pm rem1 = Inr r \<and> counter_add d h i r0 = Inr (v', r)"
proof (induction pm arbitrary: rem rem1 v)
  case Nil
  then show ?case by auto
next
  case (Cons x pm)
  obtain k j where x: "x = (k, j)" by (cases x)
  from Cons.prems(2) x obtain w ra where a: "counter_add 1 k j rem = Inr (w, ra)"
    and ra: "restore pm ra = Inr r0"
    by (cases "counter_add 1 k j rem") auto
  from counter_add_diamond [OF Cons.prems(1) a] obtain v' w' rb
    where b1: "counter_add 1 k j rem1 = Inr (w', rb)" and b2: "counter_add d h i ra = Inr (v', rb)"
    by blast
  from Cons.IH [OF b2 ra] obtain v'' r where "restore pm rb = Inr r"
    and "counter_add d h i r0 = Inr (v'', r)" by blast
  with b1 x show ?case by auto
qed

lemma restore_snoc:
  "restore pm rem = Inr r \<Longrightarrow> counter_add 1 h i r = Inr (v, r') \<Longrightarrow>
   restore (pm @ [(h, i)]) rem = Inr r'"
  by (induction pm arbitrary: rem) (auto split: sum.splits)

lemma restore_after_decrement:
  assumes "counter_add (- 1) h i rem = Inr (v, rem1)" and "restore pm rem = Inr r0"
  shows "restore (pm @ [(h, i)]) rem1 = Inr r0"
proof -
  from restore_commute [OF assms] obtain v' r where r: "restore pm rem1 = Inr r"
    and d: "counter_add (- 1) h i r0 = Inr (v', r)" by blast
  from counter_add_inverse [OF d] have "counter_add 1 h i r = Inr (v' - (- 1), r0)" by simp
  from restore_snoc [OF r this] show ?thesis .
qed

lemma process_impacts_ok:
  "list_all (valid_entry rem) xs \<Longrightarrow> restore pm rem = Inr r0 \<Longrightarrow>
   \<exists>rem' g' tp' pm'. process_impacts xs (rem, g, tp, pm) = Inr (rem', g', tp', pm')
      \<and> same_shape rem rem' \<and> restore pm' rem' = Inr r0"
proof (induction xs arbitrary: rem g tp pm)
  case Nil
  then show ?case by (simp add: same_shape_refl)
next
  case (Cons x xs)
  obtain h i where x: "x = (h, i)" by (cases x)
  show ?case
  proof (cases "h \<in> set g")
    case True
    with Cons x show ?thesis by simp
  next
    case False
    from Cons.prems(1) x have ve: "valid_entry rem (h, i)" and rest: "list_all (valid_entry rem) xs"
      by simp_all
    from counter_add_valid [OF ve] obtain v rem1 where
      c: "counter_add (- 1) h i rem = Inr (v, rem1)" by blast
    have sh: "same_shape rem rem1" by (rule counter_add_shape [OF c])
    from rest have rest1: "list_all (valid_entry rem1) xs"
      using same_shape_valid_entry [OF sh] by (simp cong: list.pred_cong)
    have r1: "restore (pm @ [(h, i)]) rem1 = Inr r0"
      by (rule restore_after_decrement [OF c Cons.prems(2)])
    show ?thesis
    proof (cases "v = 0")
      case True
      from Cons.IH [OF rest1 r1, of "set_add h g" "tp @ [h]"] obtain rem' g' tp' pm' where
        "process_impacts xs (rem1, set_add h g, tp @ [h], pm @ [(h, i)]) = Inr (rem', g', tp', pm')"
        "same_shape rem1 rem'" "restore pm' rem' = Inr r0" by blast
      with x False c True sh show ?thesis
        by (auto intro: same_shape_trans)
    next
      case nz: False
      from Cons.IH [OF rest1 r1, of g tp] obtain rem' g' tp' pm' where
        "process_impacts xs (rem1, g, tp, pm @ [(h, i)]) = Inr (rem', g', tp', pm')"
        "same_shape rem1 rem'" "restore pm' rem' = Inr r0" by blast
      with x False c nz sh show ?thesis
        by (auto intro: same_shape_trans)
    qed
  qed
qed

lemma gn_loop_ok:
  "valid_impacts rem imp \<Longrightarrow> restore pm rem = Inr r0 \<Longrightarrow>
   \<exists>rem' g' pm'. gn_loop imp (rem, g, tp, pm) = Inr (rem', g', [], pm')
      \<and> restore pm' rem' = Inr r0"
proof (induction imp "(rem, g, tp, pm)" arbitrary: rem g tp pm rule: gn_loop.induct)
  case (1 imp rem g tp pm)
  show ?case
  proof (cases "tp = []")
    case True
    with "1.prems" show ?thesis by (simp add: gn_loop.simps)
  next
    case False
    let ?l = "case fmlookup imp (last tp) of None \<Rightarrow> [] | Some l \<Rightarrow> l"
    from "1.prems"(1) have "list_all (valid_entry rem) ?l"
      by (auto simp: valid_impacts_def split: option.splits)
    from process_impacts_ok [OF this "1.prems"(2), of g "butlast tp"]
    obtain rem' g' tp' pm' where
      p: "process_impacts ?l (rem, g, butlast tp, pm) = Inr (rem', g', tp', pm')"
      and sh: "same_shape rem rem'" and r: "restore pm' rem' = Inr r0" by blast
    from "1.prems"(1) sh have v: "valid_impacts rem' imp"
      by (simp add: same_shape_valid_impacts)
    from "1.hyps" [OF False p v r] obtain rem2 g2 pm2 where
      "gn_loop imp (rem', g', tp', pm') = Inr (rem2, g2, [], pm2)"
      "restore pm2 rem2 = Inr r0" by blast
    with False p show ?thesis by (simp add: gn_loop.simps [of imp rem g tp pm])
  qed
qed


lemma process_impacts_mono:
  "process_impacts xs (rem, g, tp, pm) = Inr (rem', g', tp', pm') \<Longrightarrow> set g \<subseteq> set g'"
proof (induction xs arbitrary: rem g tp pm)
  case Nil
  then show ?case by simp
next
  case (Cons x xs)
  obtain h i where x: "x = (h, i)" by (cases x)
  show ?case
  proof (cases "h \<in> set g")
    case True
    with Cons x show ?thesis by simp
  next
    case False
    with Cons.prems x obtain v rem1 where c: "counter_add (- 1) h i rem = Inr (v, rem1)"
      by (cases "counter_add (- 1) h i rem") auto
    show ?thesis
    proof (cases "v = 0")
      case True
      with Cons.prems x False c have
        "process_impacts xs (rem1, set_add h g, tp @ [h], pm @ [(h, i)]) = Inr (rem', g', tp', pm')"
        by simp
      from Cons.IH [OF this] show ?thesis by (auto simp: set_set_add)
    next
      case nz: False
      with Cons.prems x False c have
        "process_impacts xs (rem1, g, tp, pm @ [(h, i)]) = Inr (rem', g', tp', pm')"
        by simp
      from Cons.IH [OF this] show ?thesis .
    qed
  qed
qed

lemma gn_loop_mono:
  "gn_loop imp (rem, g, tp, pm) = Inr (rem', g', tp', pm') \<Longrightarrow> set g \<subseteq> set g'"
proof (induction imp "(rem, g, tp, pm)" arbitrary: rem g tp pm rule: gn_loop.induct)
  case (1 imp rem g tp pm)
  show ?case
  proof (cases "tp = []")
    case True
    with "1.prems" show ?thesis by (simp add: gn_loop.simps)
  next
    case False
    let ?l = "case fmlookup imp (last tp) of None \<Rightarrow> [] | Some l \<Rightarrow> l"
    from False "1.prems" obtain st where p: "process_impacts ?l (rem, g, butlast tp, pm) = Inr st"
      and l: "gn_loop imp st = Inr (rem', g', tp', pm')"
      by (cases "process_impacts ?l (rem, g, butlast tp, pm)")
         (auto simp: gn_loop.simps [of imp rem g tp pm])
    obtain rem1 g1 tp1 pm1 where st: "st = (rem1, g1, tp1, pm1)" by (cases st)
    from process_impacts_mono [OF p [unfolded st]] have a: "set g \<subseteq> set g1" .
    from "1.hyps" [OF False p [unfolded st] l [unfolded st]] have "set g1 \<subseteq> set g'" .
    with a show ?thesis by blast
  qed
qed

lemma seed_added_mono: "set (fst st) \<subseteq> set (fst (seed_added xs st))"
proof (induction xs arbitrary: st)
  case Nil
  then show ?case by simp
next
  case (Cons x xs)
  obtain g tp where st: "st = (g, tp)" by (cases st)
  show ?case
    using Cons.IH [of "(set_add x g, tp @ [x])"] Cons.IH [of "(g, tp)"]
    by (auto simp: st set_set_add)
qed

lemma seed_terminals_mono: "set (fst st) \<subseteq> set (fst (seed_terminals xs st))"
proof (induction xs arbitrary: st)
  case Nil
  then show ?case by simp
next
  case (Cons x xs)
  obtain g tp where st: "st = (g, tp)" by (cases st)
  show ?case
    using Cons.IH [of "(set_add x g, tp @ [x])"]
    by (auto simp: st set_set_add)
qed

definition grows :: "remaining_t \<Rightarrow> remaining_t \<Rightarrow> bool" where
  "grows rem rem' =
     (\<forall>h xs. fmlookup rem h = Some xs \<longrightarrow>
        (\<exists>ys. fmlookup rem' h = Some ys \<and> length xs \<le> length ys))"

lemma grows_valid_entry: "grows a b \<Longrightarrow> valid_entry a e \<Longrightarrow> valid_entry b e"
  by (fastforce simp: grows_def valid_entry_def split: option.splits)

lemma grows_valid_impacts: "grows a b \<Longrightarrow> valid_impacts a imp \<Longrightarrow> valid_impacts b imp"
  unfolding valid_impacts_def list_all_iff using grows_valid_entry by blast

lemma add_impacts_valid:
  "valid_impacts rem imp \<Longrightarrow> valid_entry rem (h, i) \<Longrightarrow>
   valid_impacts rem (add_impacts h i ss imp)"
proof (induction ss arbitrary: imp)
  case Nil
  then show ?case by simp
next
  case (Cons s ss)
  let ?imp = "fmupd s ((case fmlookup imp s of None \<Rightarrow> [] | Some l \<Rightarrow> l) @ [(h, i)]) imp"
  from Cons.prems have "valid_impacts rem ?imp"
    by (auto simp: valid_impacts_def split: option.splits)
  from Cons.IH [OF this Cons.prems(2)] show ?case by simp
qed

lemma set_tables_valid:
  "valid_impacts rem imp \<Longrightarrow>
   valid_impacts (fst (snd (set_tables ps (added, rem, imp))))
                 (snd (snd (set_tables ps (added, rem, imp))))"
proof (induction ps arbitrary: added rem imp)
  case Nil
  then show ?case by simp
next
  case (Cons p ps)
  show ?case
  proof (cases "body p = []")
    case True
    with Cons show ?thesis by simp
  next
    case False
    let ?temp = "(case fmlookup rem (head p) of None \<Rightarrow> [] | Some xs \<Rightarrow> xs)
                   @ [int (length (body p))]"
    let ?rem = "fmupd (head p) ?temp rem"
    have g: "grows rem ?rem"
      by (auto simp: grows_def)
    have e: "valid_entry ?rem (head p, length ?temp - 1)"
      by (simp add: valid_entry_def)
    from grows_valid_impacts [OF g Cons.prems] have "valid_impacts ?rem imp" .
    from add_impacts_valid [OF this e]
    have "valid_impacts ?rem (add_impacts (head p) (length ?temp - 1) (body p) imp)" .
    from Cons.IH [OF this] False show ?thesis by (simp add: Let_def)
  qed
qed

definition tables_ok :: "cfg \<Rightarrow> bool" where
  "tables_ok G =
     (case impacts G of
        None \<Rightarrow> True
      | Some imp \<Rightarrow>
          (case remaining_lists G of
             None \<Rightarrow> False
           | Some rem \<Rightarrow> added_impacts G \<noteq> None \<and> valid_impacts rem imp))"

lemma tables_ok_set:
  "tables_ok G \<Longrightarrow>
   \<exists>added rem imp.
      added_impacts (set_impacts_and_remaining_lists G) = Some added
    \<and> remaining_lists (set_impacts_and_remaining_lists G) = Some rem
    \<and> impacts (set_impacts_and_remaining_lists G) = Some imp
    \<and> valid_impacts rem imp"
proof (cases "impacts G")
  case None
  have "valid_impacts fmempty fmempty" by (simp add: valid_impacts_def)
  from set_tables_valid [OF this, of "productions G" "[]"] None show ?thesis
    by (simp add: set_impacts_and_remaining_lists_def Let_def)
next
  case (Some imp)
  assume "tables_ok G"
  with Some show ?thesis
    by (auto simp: tables_ok_def set_impacts_and_remaining_lists_def split: option.splits)
qed

lemma set_impacts_idem:
  "tables_ok G \<Longrightarrow>
   set_impacts_and_remaining_lists (set_impacts_and_remaining_lists G)
   = set_impacts_and_remaining_lists G"
  using tables_ok_set [of G] by (auto simp: set_impacts_and_remaining_lists_def [of "set_impacts_and_remaining_lists G"])

lemma get_generating_or_nullable_run:
  assumes "tables_ok G"
  shows "\<exists>g. get_generating_or_nullable nullable G = Inr (g, set_impacts_and_remaining_lists G)"
proof -
  let ?G = "set_impacts_and_remaining_lists G"
  from tables_ok_set [OF assms] obtain added rem imp where
    a: "added_impacts ?G = Some added" and r: "remaining_lists ?G = Some rem"
    and i: "impacts ?G = Some imp" and v: "valid_impacts rem imp" by blast
  let ?st0 = "seed_added added ([Epsilon], [Epsilon])"
  let ?st1 = "if \<not> nullable then seed_terminals (terminals ?G) ?st0 else ?st0"
  have e1: "Epsilon \<in> set (fst ?st1)"
    using seed_added_mono [of "([Epsilon], [Epsilon])" added]
      seed_terminals_mono [of ?st0 "terminals ?G"] by auto
  have "restore [] rem = Inr rem" by simp
  from gn_loop_ok [OF v this, of "fst ?st1" "snd ?st1"] obtain rem1 g1 pm1 where
    l: "gn_loop imp (rem, fst ?st1, snd ?st1, []) = Inr (rem1, g1, [], pm1)"
    and rs: "restore pm1 rem1 = Inr rem" by blast
  from gn_loop_mono [OF l] e1 have e2: "Epsilon \<in> set g1" by blast
  have same: "?G\<lparr>remaining_lists := Some rem\<rparr> = ?G" using r by simp
  show ?thesis
    unfolding get_generating_or_nullable_def Let_def
    using a r i l rs e2 same by simp
qed

lemma set_impacts_upd_gen:
  "set_impacts_and_remaining_lists (G\<lparr>generating_symbols := x\<rparr>)
   = (set_impacts_and_remaining_lists G)\<lparr>generating_symbols := x\<rparr>"
  by (simp add: set_impacts_and_remaining_lists_def Let_def)

lemma set_impacts_upd_nul:
  "set_impacts_and_remaining_lists (G\<lparr>nullable_symbols := x\<rparr>)
   = (set_impacts_and_remaining_lists G)\<lparr>nullable_symbols := x\<rparr>"
  by (simp add: set_impacts_and_remaining_lists_def Let_def)

lemma gon_upd_gen:
  "get_generating_or_nullable b (G\<lparr>generating_symbols := x\<rparr>)
   = (case get_generating_or_nullable b G of
        Inl e \<Rightarrow> Inl e
      | Inr (g, G') \<Rightarrow> Inr (g, G'\<lparr>generating_symbols := x\<rparr>))"
proof (cases b)
  case True
    let ?G = "set_impacts_and_remaining_lists G"
    show ?thesis
    proof (cases "added_impacts ?G")
      case None
      then show ?thesis
        by (simp add: get_generating_or_nullable_def Let_def set_impacts_upd_gen)
    next
      case a: (Some added)
      show ?thesis
      proof (cases "remaining_lists ?G")
        case None
        with a show ?thesis
          by (simp add: get_generating_or_nullable_def Let_def set_impacts_upd_gen)
      next
        case r: (Some rem)
        show ?thesis
        proof (cases "impacts ?G")
          case None
          with a r show ?thesis
            by (simp add: get_generating_or_nullable_def Let_def set_impacts_upd_gen)
        next
          case i: (Some imp)
          let ?st0 = "seed_added added ([Epsilon], [Epsilon])"
          let ?st1 = "?st0"
          show ?thesis
          proof (cases "gn_loop imp (rem, fst ?st1, snd ?st1, [])")
            case (Inl e)
            with a r i True show ?thesis
              by (simp add: get_generating_or_nullable_def Let_def set_impacts_upd_gen)
          next
            case (Inr st)
            obtain rem1 g tp pm where st: "st = (rem1, g, tp, pm)" by (cases st)
            show ?thesis
            proof (cases "restore pm rem1")
              case (Inl e)
              with a r i Inr st True show ?thesis
                by (simp add: get_generating_or_nullable_def Let_def set_impacts_upd_gen)
            next
              case rr: (Inr rem2)
              with a r i Inr st True show ?thesis
                by (simp add: get_generating_or_nullable_def Let_def set_impacts_upd_gen)
            qed
          qed
        qed
      qed
    qed
next
  case False
    let ?G = "set_impacts_and_remaining_lists G"
    show ?thesis
    proof (cases "added_impacts ?G")
      case None
      then show ?thesis
        by (simp add: get_generating_or_nullable_def Let_def set_impacts_upd_gen)
    next
      case a: (Some added)
      show ?thesis
      proof (cases "remaining_lists ?G")
        case None
        with a show ?thesis
          by (simp add: get_generating_or_nullable_def Let_def set_impacts_upd_gen)
      next
        case r: (Some rem)
        show ?thesis
        proof (cases "impacts ?G")
          case None
          with a r show ?thesis
            by (simp add: get_generating_or_nullable_def Let_def set_impacts_upd_gen)
        next
          case i: (Some imp)
          let ?st0 = "seed_added added ([Epsilon], [Epsilon])"
          let ?st1 = "seed_terminals (terminals ?G) ?st0"
          show ?thesis
          proof (cases "gn_loop imp (rem, fst ?st1, snd ?st1, [])")
            case (Inl e)
            with a r i False show ?thesis
              by (simp add: get_generating_or_nullable_def Let_def set_impacts_upd_gen)
          next
            case (Inr st)
            obtain rem1 g tp pm where st: "st = (rem1, g, tp, pm)" by (cases st)
            show ?thesis
            proof (cases "restore pm rem1")
              case (Inl e)
              with a r i Inr st False show ?thesis
                by (simp add: get_generating_or_nullable_def Let_def set_impacts_upd_gen)
            next
              case rr: (Inr rem2)
              with a r i Inr st False show ?thesis
                by (simp add: get_generating_or_nullable_def Let_def set_impacts_upd_gen)
            qed
          qed
        qed
      qed
    qed
qed

lemma gon_upd_nul:
  "get_generating_or_nullable b (G\<lparr>nullable_symbols := x\<rparr>)
   = (case get_generating_or_nullable b G of
        Inl e \<Rightarrow> Inl e
      | Inr (g, G') \<Rightarrow> Inr (g, G'\<lparr>nullable_symbols := x\<rparr>))"
proof (cases b)
  case True
    let ?G = "set_impacts_and_remaining_lists G"
    show ?thesis
    proof (cases "added_impacts ?G")
      case None
      then show ?thesis
        by (simp add: get_generating_or_nullable_def Let_def set_impacts_upd_nul)
    next
      case a: (Some added)
      show ?thesis
      proof (cases "remaining_lists ?G")
        case None
        with a show ?thesis
          by (simp add: get_generating_or_nullable_def Let_def set_impacts_upd_nul)
      next
        case r: (Some rem)
        show ?thesis
        proof (cases "impacts ?G")
          case None
          with a r show ?thesis
            by (simp add: get_generating_or_nullable_def Let_def set_impacts_upd_nul)
        next
          case i: (Some imp)
          let ?st0 = "seed_added added ([Epsilon], [Epsilon])"
          let ?st1 = "?st0"
          show ?thesis
          proof (cases "gn_loop imp (rem, fst ?st1, snd ?st1, [])")
            case (Inl e)
            with a r i True show ?thesis
              by (simp add: get_generating_or_nullable_def Let_def set_impacts_upd_nul)
          next
            case (Inr st)
            obtain rem1 g tp pm where st: "st = (rem1, g, tp, pm)" by (cases st)
            show ?thesis
            proof (cases "restore pm rem1")
              case (Inl e)
              with a r i Inr st True show ?thesis
                by (simp add: get_generating_or_nullable_def Let_def set_impacts_upd_nul)
            next
              case rr: (Inr rem2)
              with a r i Inr st True show ?thesis
                by (simp add: get_generating_or_nullable_def Let_def set_impacts_upd_nul)
            qed
          qed
        qed
      qed
    qed
next
  case False
    let ?G = "set_impacts_and_remaining_lists G"
    show ?thesis
    proof (cases "added_impacts ?G")
      case None
      then show ?thesis
        by (simp add: get_generating_or_nullable_def Let_def set_impacts_upd_nul)
    next
      case a: (Some added)
      show ?thesis
      proof (cases "remaining_lists ?G")
        case None
        with a show ?thesis
          by (simp add: get_generating_or_nullable_def Let_def set_impacts_upd_nul)
      next
        case r: (Some rem)
        show ?thesis
        proof (cases "impacts ?G")
          case None
          with a r show ?thesis
            by (simp add: get_generating_or_nullable_def Let_def set_impacts_upd_nul)
        next
          case i: (Some imp)
          let ?st0 = "seed_added added ([Epsilon], [Epsilon])"
          let ?st1 = "seed_terminals (terminals ?G) ?st0"
          show ?thesis
          proof (cases "gn_loop imp (rem, fst ?st1, snd ?st1, [])")
            case (Inl e)
            with a r i False show ?thesis
              by (simp add: get_generating_or_nullable_def Let_def set_impacts_upd_nul)
          next
            case (Inr st)
            obtain rem1 g tp pm where st: "st = (rem1, g, tp, pm)" by (cases st)
            show ?thesis
            proof (cases "restore pm rem1")
              case (Inl e)
              with a r i Inr st False show ?thesis
                by (simp add: get_generating_or_nullable_def Let_def set_impacts_upd_nul)
            next
              case rr: (Inr rem2)
              with a r i Inr st False show ?thesis
                by (simp add: get_generating_or_nullable_def Let_def set_impacts_upd_nul)
            qed
          qed
        qed
      qed
    qed
qed

text \<open>
  C5. On a grammar whose tables are not yet built or are the ones built from its
  productions, a run of the shared engine (for the generating or for the nullable
  symbols) returns without error and leaves the object as it is once the tables are
  built: every counter decremented during the run is restored, so the remaining-counter
  table after the call is the table before it (when the tables were already built the
  whole object is unchanged). Repeating either analysis therefore gives the same set
  again, through \<open>get_generating_symbols\<close> and \<open>get_nullable_symbols\<close> as well, in
  either order.
\<close>

theorem analyses_restore_counters:
  assumes "tables_ok G"
  shows "\<exists>gen nul.
      get_generating_or_nullable False G = Inr (gen, set_impacts_and_remaining_lists G)
    \<and> get_generating_or_nullable True G = Inr (nul, set_impacts_and_remaining_lists G)
    \<and> (impacts G \<noteq> None \<longrightarrow> set_impacts_and_remaining_lists G = G)
    \<and> tables_ok (set_impacts_and_remaining_lists G)
    \<and> get_generating_or_nullable False (set_impacts_and_remaining_lists G)
        = Inr (gen, set_impacts_and_remaining_lists G)
    \<and> get_generating_or_nullable True (set_impacts_and_remaining_lists G)
        = Inr (nul, set_impacts_and_remaining_lists G)
    \<and> (generating_symbols G = None \<longrightarrow>
          get_generating_symbols G
            = Inr (gen, (set_impacts_and_remaining_lists G)\<lparr>generating_symbols := Some gen\<rparr>)
        \<and> get_generating_symbols
            ((set_impacts_and_remaining_lists G)\<lparr>generating_symbols := Some gen\<rparr>)
            = Inr (gen, (set_impacts_and_remaining_lists G)\<lparr>generating_symbols := Some gen\<rparr>))
    \<and> (nullable_symbols G = None \<longrightarrow>
          get_nullable_symbols G
            = Inr (nul, (set_impacts_and_remaining_lists G)\<lparr>nullable_symbols := Some nul\<rparr>)
        \<and> get_nullable_symbols
            ((set_impacts_and_remaining_lists G)\<lparr>nullable_symbols := Some nul\<rparr>)
            = Inr (nul, (set_impacts_and_remaining_lists G)\<lparr>nullable_symbols := Some nul\<rparr>))
    \<and> (generating_symbols G = None \<longrightarrow> nullable_symbols G = None \<longrightarrow>
          get_nullable_symbols
            ((set_impacts_and_remaining_lists G)\<lparr>generating_symbols := Some gen\<rparr>)
            = Inr (nul, (set_impacts_and_remaining_lists G)
                          \<lparr>generating_symbols := Some gen, nullable_symbols := Some nul\<rparr>)
        \<and> get_generating_symbols
            ((set_impacts_and_remaining_lists G)\<lparr>nullable_symbols := Some nul\<rparr>)
            = Inr (gen, (set_impacts_and_remaining_lists G)
                          \<lparr>nullable_symbols := Some nul, generating_symbols := Some gen\<rparr>))"
proof -
  let ?G = "set_impacts_and_remaining_lists G"
  from get_generating_or_nullable_run [OF assms, of False] obtain gen where
    g: "get_generating_or_nullable False G = Inr (gen, ?G)" by blast
  from get_generating_or_nullable_run [OF assms, of True] obtain nul where
    n: "get_generating_or_nullable True G = Inr (nul, ?G)" by blast
  have same: "impacts G \<noteq> None \<longrightarrow> ?G = G"
    by (simp add: set_impacts_and_remaining_lists_def)
  from tables_ok_set [OF assms] have ok: "tables_ok ?G"
    by (auto simp: tables_ok_def)
  have idem: "set_impacts_and_remaining_lists ?G = ?G"
    by (rule set_impacts_idem [OF assms])
  have unf: "get_generating_or_nullable b ?G = get_generating_or_nullable b G" for b
    unfolding get_generating_or_nullable_def [of b ?G] get_generating_or_nullable_def [of b G] idem
    by (rule refl)
  have g2: "get_generating_or_nullable False ?G = Inr (gen, ?G)" using g unf by simp
  have n2: "get_generating_or_nullable True ?G = Inr (nul, ?G)" using n unf by simp
  have gen_nul: "generating_symbols ?G = generating_symbols G"
    "nullable_symbols ?G = nullable_symbols G"
    by (simp_all add: set_impacts_and_remaining_lists_def Let_def)
  have p1: "generating_symbols G = None \<longrightarrow>
      get_generating_symbols G = Inr (gen, ?G\<lparr>generating_symbols := Some gen\<rparr>)"
    using g by (simp add: get_generating_symbols_def)
  have p2: "get_generating_symbols (?G\<lparr>generating_symbols := Some gen\<rparr>)
      = Inr (gen, ?G\<lparr>generating_symbols := Some gen\<rparr>)"
    by (simp add: get_generating_symbols_def)
  have p3: "nullable_symbols G = None \<longrightarrow>
      get_nullable_symbols G = Inr (nul, ?G\<lparr>nullable_symbols := Some nul\<rparr>)"
    using n by (simp add: get_nullable_symbols_def)
  have p4: "get_nullable_symbols (?G\<lparr>nullable_symbols := Some nul\<rparr>)
      = Inr (nul, ?G\<lparr>nullable_symbols := Some nul\<rparr>)"
    by (simp add: get_nullable_symbols_def)
  have p5: "nullable_symbols G = None \<longrightarrow>
      get_nullable_symbols (?G\<lparr>generating_symbols := Some gen\<rparr>)
      = Inr (nul, ?G\<lparr>generating_symbols := Some gen, nullable_symbols := Some nul\<rparr>)"
    using n2 gen_nul by (simp add: get_nullable_symbols_def gon_upd_gen)
  have p6: "generating_symbols G = None \<longrightarrow>
      get_generating_symbols (?G\<lparr>nullable_symbols := Some nul\<rparr>)
      = Inr (gen, ?G\<lparr>nullable_symbols := Some nul, generating_symbols := Some gen\<rparr>)"
    using g2 gen_nul by (simp add: get_generating_symbols_def gon_upd_nul)
  show ?thesis
    apply (rule exI [of _ gen])
    apply (rule exI [of _ nul])
    apply (intro conjI)
    using g n same ok g2 n2 p1 p2 p3 p4 p5 p6 apply blast+
    done
qed

text \<open>
  The grammar \<open>S -> a S | a\<close>, \<open>A -> S\<close>: the run for the generating symbols decrements
  three counters, and the table is the built one afterwards.
\<close>

theorem analyses_restore_counters_witness:
  "tables_ok (CFG_init None None (Some (Variable ''S''))
      (Some [\<lparr>head = Variable ''S'', body = [Terminal ''a'', Variable ''S'']\<rparr>,
             \<lparr>head = Variable ''S'', body = [Terminal ''a'']\<rparr>,
             \<lparr>head = Variable ''A'', body = [Variable ''S'']\<rparr>]))
   \<and> (\<exists>gen. get_generating_symbols (CFG_init None None (Some (Variable ''S''))
      (Some [\<lparr>head = Variable ''S'', body = [Terminal ''a'', Variable ''S'']\<rparr>,
             \<lparr>head = Variable ''S'', body = [Terminal ''a'']\<rparr>,
             \<lparr>head = Variable ''A'', body = [Variable ''S'']\<rparr>]))
        = Inr (gen, (set_impacts_and_remaining_lists (CFG_init None None (Some (Variable ''S''))
      (Some [\<lparr>head = Variable ''S'', body = [Terminal ''a'', Variable ''S'']\<rparr>,
             \<lparr>head = Variable ''S'', body = [Terminal ''a'']\<rparr>,
             \<lparr>head = Variable ''A'', body = [Variable ''S'']\<rparr>])))
             \<lparr>generating_symbols := Some gen\<rparr>))"
proof -
  let ?G = "CFG_init None None (Some (Variable ''S''))
      (Some [\<lparr>head = Variable ''S'', body = [Terminal ''a'', Variable ''S'']\<rparr>,
             \<lparr>head = Variable ''S'', body = [Terminal ''a'']\<rparr>,
             \<lparr>head = Variable ''A'', body = [Variable ''S'']\<rparr>])"
  have ok: "tables_ok ?G" by (simp add: tables_ok_def CFG_init_fresh)
  have g: "generating_symbols ?G = None" by (simp add: CFG_init_fresh)
  from analyses_restore_counters [OF ok] g ok show ?thesis by blast
qed

section \<open>The terminals of a substitution\<close>

text \<open>The terminals that occur in the bodies of the productions of a grammar.\<close>

definition body_terminals :: "cfg \<Rightarrow> cfg_object set" where
  "body_terminals G =
     {x. is_Terminal x \<and> (\<exists>p \<in> set (productions G). x \<in> set (body p))}"

lemma initialize_body_terminals:
  "set (snd (initialize_body xs (vs, ts))) = set ts \<union> {x \<in> set xs. is_Terminal x}"
  by (induction xs arbitrary: vs ts) (auto simp: set_set_add)

lemma initialize_production_terminals:
  "set (snd (initialize_production_in_cfg p vt))
   = set (snd vt) \<union> {x \<in> set (body p). is_Terminal x}"
  by (simp add: initialize_production_in_cfg_def initialize_body_terminals)

lemma fold_initialize_terminals:
  "set (snd (fold initialize_production_in_cfg ps vt))
   = set (snd vt) \<union> {x. is_Terminal x \<and> (\<exists>p \<in> set ps. x \<in> set (body p))}"
proof (induction ps arbitrary: vt)
  case Nil
  then show ?case by simp
next
  case (Cons p ps)
  show ?case
    unfolding fold_simps Cons.IH initialize_production_terminals by auto
qed

lemma CFG_init_terminals_None:
  "set (terminals (CFG_init vs None s (Some ps)))
   = body_terminals (CFG_init vs None s (Some ps))"
  by (simp add: body_terminals_def CFG_init_productions)
     (simp add: CFG_init_def Let_def fold_initialize_terminals)

lemma substitute_shape:
  "substitute G substitution = Inr R \<Longrightarrow>
   \<exists>vs s ps. R = CFG_init (Some vs) None (Some s) (Some ps)"
  unfolding substitute_def Let_def
  by (auto split: sum.splits option.splits)

lemma substitute_body_terminals:
  "substitute G substitution = Inr R \<Longrightarrow> set (terminals R) = body_terminals R"
  using substitute_shape [of G substitution R] CFG_init_terminals_None by auto

text \<open>
  C9. The terminal set of \<open>G.substitute(mapping)\<close>, and so of a union, a
  concatenation, a closure and a positive closure, consists exactly of the terminals
  that occur in the bodies of the productions of the result: the constructor is given
  None for its terminals, so a terminal declared in the host (or in a substituted
  grammar) that occurs in no body of the result is not a terminal of the result.
\<close>

theorem substitute_terminals_are_body_terminals:
  "(substitute G substitution = Inr R \<longrightarrow>
      set (terminals R) = body_terminals R
      \<and> (\<forall>t \<in> set (terminals G). t \<notin> body_terminals R \<longrightarrow> t \<notin> set (terminals R)))
   \<and> (union G other = Inr R \<longrightarrow> set (terminals R) = body_terminals R)
   \<and> (concatenate G other = Inr R \<longrightarrow> set (terminals R) = body_terminals R)
   \<and> (get_closure G = Inr R \<longrightarrow> set (terminals R) = body_terminals R)
   \<and> (get_positive_closure G = Inr R \<longrightarrow> set (terminals R) = body_terminals R)"
proof -
  have 1: "substitute G substitution = Inr R \<longrightarrow>
      set (terminals R) = body_terminals R
      \<and> (\<forall>t \<in> set (terminals G). t \<notin> body_terminals R \<longrightarrow> t \<notin> set (terminals R))"
    using substitute_body_terminals [of G substitution R] by auto
  have 2: "union G other = Inr R \<longrightarrow> set (terminals R) = body_terminals R"
    unfolding union_def Let_def by (auto dest: substitute_body_terminals)
  have 3: "concatenate G other = Inr R \<longrightarrow> set (terminals R) = body_terminals R"
    unfolding concatenate_def Let_def by (auto dest: substitute_body_terminals)
  have 4: "get_closure G = Inr R \<longrightarrow> set (terminals R) = body_terminals R"
    unfolding get_closure_def Let_def by (auto dest: substitute_body_terminals)
  have 5: "get_positive_closure G = Inr R \<longrightarrow> set (terminals R) = body_terminals R"
    unfolding get_positive_closure_def Let_def by (auto dest: substitute_body_terminals)
  from 1 2 3 4 5 show ?thesis by blast
qed

text \<open>
  The host \<open>S -> a\<close> with the declared terminals \<open>a\<close> and \<open>z\<close>, and the empty
  substitution: \<open>z\<close> is a terminal of the host and not of the result.
\<close>

theorem substitute_terminals_are_body_terminals_witness:
  "substitute (CFG_init (Some [Variable ''S'']) (Some [Terminal ''a'', Terminal ''z''])
        (Some (Variable ''S'')) (Some [\<lparr>head = Variable ''S'', body = [Terminal ''a'']\<rparr>])) []
     = Inr (CFG_init (Some [Variable ''S#SUBS#0'']) None (Some (Variable ''S#SUBS#0''))
        (Some [\<lparr>head = Variable ''S#SUBS#0'', body = [Terminal ''a'']\<rparr>]))
   \<and> Terminal ''z'' \<in> set (terminals (CFG_init (Some [Variable ''S''])
        (Some [Terminal ''a'', Terminal ''z''])
        (Some (Variable ''S'')) (Some [\<lparr>head = Variable ''S'', body = [Terminal ''a'']\<rparr>])))
   \<and> body_terminals (CFG_init (Some [Variable ''S#SUBS#0'']) None (Some (Variable ''S#SUBS#0''))
        (Some [\<lparr>head = Variable ''S#SUBS#0'', body = [Terminal ''a'']\<rparr>])) = {Terminal ''a''}
   \<and> set (terminals (CFG_init (Some [Variable ''S#SUBS#0'']) None (Some (Variable ''S#SUBS#0''))
        (Some [\<lparr>head = Variable ''S#SUBS#0'', body = [Terminal ''a'']\<rparr>]))) = {Terminal ''a''}"
proof -
  let ?G = "CFG_init (Some [Variable ''S'']) (Some [Terminal ''a'', Terminal ''z''])
        (Some (Variable ''S'')) (Some [\<lparr>head = Variable ''S'', body = [Terminal ''a'']\<rparr>])"
  let ?R = "CFG_init (Some [Variable ''S#SUBS#0'']) None (Some (Variable ''S#SUBS#0''))
        (Some [\<lparr>head = Variable ''S#SUBS#0'', body = [Terminal ''a'']\<rparr>])"
  have s: "substitute ?G [] = Inr ?R"
    by code_simp
  have z: "Terminal ''z'' \<in> set (terminals ?G)"
    by code_simp
  have b: "body_terminals ?R = {Terminal ''a''}"
    by (auto simp: body_terminals_def CFG_init_productions)
  from substitute_terminals_are_body_terminals [of ?G "[]" ?R] s
  have "set (terminals ?R) = body_terminals ?R" by blast
  with s z b show ?thesis by simp
qed

section \<open>Intersection with an automaton of empty language\<close>

lemma generate_epsilon_empty_grammar:
  "map_sum id fst (generate_epsilon (CFG_init None None None None)) = Inr False"
  by code_simp

lemma to_normal_form_empty_grammar:
  "map_option (map_sum id (\<lambda>N. (start_symbol N, productions N, variables N, terminals N)))
     (to_normal_form rnp (CFG_init None None None None))
   = Some (Inr (None, [], [], []))"
  by code_simp

lemma contains_empty_grammar:
  "contains rnp (CFG_init None None None None) w = Some (Inr False)"
proof (cases "map to_terminal (filter (\<lambda>x. x \<noteq> Epsilon) w) = []")
  case True
  from generate_epsilon_empty_grammar obtain G' where
    "generate_epsilon (CFG_init None None None None) = Inr (False, G')"
    by (cases "generate_epsilon (CFG_init None None None None)") auto
  with True show ?thesis by (simp add: contains_def)
next
  case False
  from to_normal_form_empty_grammar [of rnp] obtain N where
    n: "to_normal_form rnp (CFG_init None None None None) = Some (Inr N)"
    and s: "start_symbol N = None"
    by (cases "to_normal_form rnp (CFG_init None None None None)") (auto simp: map_sum_def split: sum.splits)
  from False n s show ?thesis
    by (simp add: contains_def generate_word_def Let_def)
qed

text \<open>
  C10. When the (determinised) finite automaton has an empty language,
  \<open>G.intersection(A)\<close> returns the default-constructed grammar \<open>CFG()\<close>: no variables, no
  terminals, no productions and no start symbol (not the variable \<open>Start\<close> of the
  product construction), and this grammar contains no word.
\<close>

theorem intersection_with_empty_automaton:
  assumes "is_empty (if \<not> is_deterministic fa then to_deterministic fa else fa)"
  shows "intersection rnp to_epsilon_nfa to_deterministic cv G (FiniteAutomaton fa)
           = Some (Inr (CFG_init None None None None))
       \<and> variables (CFG_init None None None None) = []
       \<and> terminals (CFG_init None None None None) = []
       \<and> productions (CFG_init None None None None) = []
       \<and> start_symbol (CFG_init None None None None) = None
       \<and> (\<forall>w. contains rnp (CFG_init None None None None) w = Some (Inr False))"
proof -
  have "intersection rnp to_epsilon_nfa to_deterministic cv G (FiniteAutomaton fa)
           = Some (Inr (CFG_init None None None None))"
    using assms by (simp add: intersection_def)
  moreover have "variables (CFG_init None None None None) = []"
    "terminals (CFG_init None None None None) = []"
    "productions (CFG_init None None None None) = []"
    "start_symbol (CFG_init None None None None) = None"
    by (simp_all add: CFG_init_def)
  ultimately show ?thesis using contains_empty_grammar by blast
qed

text \<open>
  A deterministic automaton with no state, whose language is empty, and the grammar
  \<open>S -> a\<close>.
\<close>

definition automaton_without_states :: "nat finite_automaton" where
  "automaton_without_states =
     \<lparr>states = [], start_states = [], final_states = [], transition = (\<lambda>q s. []),
      is_deterministic = True, is_empty = True, accepts = (\<lambda>w. False)\<rparr>"

theorem intersection_with_empty_automaton_witness:
  "intersection (remove_nullable_production (Some (Variable ''S'')))
      (\<lambda>r :: unit. automaton_without_states) id (\<lambda>p X r. Variable ''X'')
      (CFG_init None None (Some (Variable ''S''))
         (Some [\<lparr>head = Variable ''S'', body = [Terminal ''a'']\<rparr>]))
      (FiniteAutomaton automaton_without_states)
     = Some (Inr (CFG_init None None None None))
   \<and> start_symbol (CFG_init None None None None) = None
   \<and> contains (remove_nullable_production (Some (Variable ''S'')))
        (CFG_init None None None None) [Terminal ''a''] = Some (Inr False)"
proof -
  have e: "is_empty (if \<not> is_deterministic automaton_without_states
                     then id automaton_without_states else automaton_without_states)"
    by (simp add: automaton_without_states_def)
  from intersection_with_empty_automaton
    [where fa = automaton_without_states and to_deterministic = id, OF e]
  show ?thesis by blast
qed

section \<open>The errors of the intersection\<close>

































section \<open>The normal form of a grammar with a unit production to itself\<close>

text \<open>
  C2. The claim is that every production of \<open>G.to_normal_form()\<close> has a body of two
  variables, of one terminal, or (for the start symbol only) the empty body. On the
  grammar \<open>S -> S | a\<close> the code returns the productions \<open>S -> S\<close> and \<open>S -> a\<close>: the
  body of \<open>S -> S\<close> is a single variable. The test \<open>len(unit_pairs) != len(self._variables)\<close>
  does not see a unit production from a variable to itself, so the grammar counts as
  already clean and \<open>eliminate_unit_productions\<close> is never run on it.
\<close>

theorem to_normal_form_keeps_unit_production:
  "map_option (map_sum id productions)
     (to_normal_form rnp
        (CFG_init None None (Some (Variable ''S''))
           (Some [\<lparr>head = Variable ''S'', body = [Variable ''S'']\<rparr>,
                  \<lparr>head = Variable ''S'', body = [Terminal ''a'']\<rparr>])))
   = Some (Inr [\<lparr>head = Variable ''S'', body = [Variable ''S'']\<rparr>,
                \<lparr>head = Variable ''S'', body = [Terminal ''a'']\<rparr>])"
  by code_simp

section \<open>Membership in a union\<close>

text \<open>
  C4. The claim is that \<open>(G1 | G2).contains(w)\<close> holds iff \<open>G1.contains(w)\<close> or
  \<open>G2.contains(w)\<close>. Take \<open>G1\<close> with the productions \<open>S -> a A\<close> and \<open>A -> b\<close>, where
  the variable \<open>A\<close> is named \<open>a#CNF#\<close>, \<open>G2\<close> with \<open>S -> c\<close>, and the word \<open>a a\<close>.
  The normal form of \<open>G1\<close> names the variable for the terminal \<open>a\<close> \<open>a#CNF#\<close> as well,
  so \<open>G1.contains\<close> accepts \<open>a a\<close>, which \<open>G1\<close> does not generate; \<open>G2.contains\<close>
  rejects it, and so does the union, whose variables are renamed.
\<close>

theorem union_contains_differs:
  "contains (remove_nullable_production (Some (Variable ''S'')))
     (CFG_init None None (Some (Variable ''S''))
        (Some [\<lparr>head = Variable ''S'', body = [Terminal ''a'', Variable ''a#CNF#'']\<rparr>,
               \<lparr>head = Variable ''a#CNF#'', body = [Terminal ''b'']\<rparr>]))
     [Terminal ''a'', Terminal ''a''] = Some (Inr True)
   \<and> contains (remove_nullable_production (Some (Variable ''S'')))
     (CFG_init None None (Some (Variable ''S''))
        (Some [\<lparr>head = Variable ''S'', body = [Terminal ''c'']\<rparr>]))
     [Terminal ''a'', Terminal ''a''] = Some (Inr False)
   \<and> (case union
          (CFG_init None None (Some (Variable ''S''))
            (Some [\<lparr>head = Variable ''S'', body = [Terminal ''a'', Variable ''a#CNF#'']\<rparr>,
                   \<lparr>head = Variable ''a#CNF#'', body = [Terminal ''b'']\<rparr>]))
          (CFG_init None None (Some (Variable ''S''))
            (Some [\<lparr>head = Variable ''S'', body = [Terminal ''c'']\<rparr>])) of
         Inl e \<Rightarrow> None
       | Inr U \<Rightarrow> contains (remove_nullable_production (start_symbol U)) U
                    [Terminal ''a'', Terminal ''a''])
     = Some (Inr False)"
  by code_simp

section \<open>Negative bounds of the enumeration\<close>

lemma words_loop_not_entered:
  "\<not> (2 \<le> max_length \<or> max_length = - 1) \<Longrightarrow>
   words_loop fuel max_length start ps 2 0 (d, out) = Inr (out, True)"
  by simp

text \<open>
  C1. Only \<open>max_length = -1\<close> stands for an unbounded enumeration. For every
  \<open>k < -1\<close>, \<open>G.get_words(k)\<close> yields exactly what \<open>G.get_words(1)\<close> yields (the empty
  word if the start symbol is nullable, then the words of length one), and the loop
  that builds the words of length two and more is not entered: the result does not
  depend on the fuel.
\<close>

theorem get_words_below_minus_one:
  assumes "k < - 1"
  shows "get_words rnp fuel G k = get_words rnp fuel G 1
       \<and> get_words rnp fuel G k = get_words rnp 0 G k"
proof -
  from assms have k: "\<not> (2 \<le> k \<or> k = - 1)" "k \<noteq> 0" by simp_all
  have one: "\<not> (2 \<le> (1::int) \<or> (1::int) = - 1)" by simp
  show ?thesis
    unfolding get_words_def Let_def
    using k one
    by (auto split: sum.splits option.splits prod.splits
             simp: words_loop_not_entered simp del: words_loop.simps)
qed

text \<open>The grammar \<open>S -> a b\<close> and the bound \<open>-2\<close>.\<close>

theorem get_words_below_minus_one_witness:
  "get_words (remove_nullable_production (Some (Variable ''S''))) 10
     (CFG_init None None (Some (Variable ''S''))
        (Some [\<lparr>head = Variable ''S'', body = [Terminal ''a'', Terminal ''b'']\<rparr>])) (- 2)
   = get_words (remove_nullable_production (Some (Variable ''S''))) 10
     (CFG_init None None (Some (Variable ''S''))
        (Some [\<lparr>head = Variable ''S'', body = [Terminal ''a'', Terminal ''b'']\<rparr>])) 1"
proof -
  have "(- 2 :: int) < - 1" by simp
  from get_words_below_minus_one [OF this] show ?thesis by blast
qed

text \<open>
  The claim as stated fails: on the grammar \<open>S -> a b\<close>, \<open>get_words(-1)\<close> yields the
  word \<open>a b\<close> and finishes, and \<open>get_words(-2)\<close> yields nothing.
\<close>

theorem get_words_negative_counterexample:
  "get_words (remove_nullable_production (Some (Variable ''S''))) 10
     (CFG_init None None (Some (Variable ''S''))
        (Some [\<lparr>head = Variable ''S'', body = [Terminal ''a'', Terminal ''b'']\<rparr>])) (- 2)
   \<noteq> get_words (remove_nullable_production (Some (Variable ''S''))) 10
     (CFG_init None None (Some (Variable ''S''))
        (Some [\<lparr>head = Variable ''S'', body = [Terminal ''a'', Terminal ''b'']\<rparr>])) (- 1)"
proof -
  have a: "get_words (remove_nullable_production (Some (Variable ''S''))) 10
     (CFG_init None None (Some (Variable ''S''))
        (Some [\<lparr>head = Variable ''S'', body = [Terminal ''a'', Terminal ''b'']\<rparr>])) (- 2)
     = Some (Inr ([], True))"
    by code_simp
  have b: "get_words (remove_nullable_production (Some (Variable ''S''))) 10
     (CFG_init None None (Some (Variable ''S''))
        (Some [\<lparr>head = Variable ''S'', body = [Terminal ''a'', Terminal ''b'']\<rparr>])) (- 1)
     = Some (Inr ([[Terminal ''a'', Terminal ''b'']], True))"
    by code_simp
  show ?thesis unfolding a b by simp
qed

section \<open>The tables of the fixed-point engine, characterised\<close>

text \<open>
  The next sections prepare the idempotence of \<open>to_normal_form\<close>: they describe what the loops of the analyses compute, first the two tables built by \<open>_set_impacts_and_remaining_lists\<close>.
\<close>

text \<open>
  The productions of head \<open>h\<close> with a non-empty body, in their order: the index of a production in this list is its index in \<open>_remaining_lists[h]\<close>.
\<close>

definition rules_of :: "production list \<Rightarrow> cfg_object \<Rightarrow> production list" where
  "rules_of ps h = filter (\<lambda>p. head p = h \<and> body p \<noteq> []) ps"


text \<open>
  The entries that the productions \<open>ps\<close>, entered after the productions \<open>pre\<close>, append to \<open>_impacts[s]\<close>: one pair (head, index) for each occurrence of \<open>s\<close> in a body.
\<close>

fun imp_from :: "production list \<Rightarrow> production list \<Rightarrow> cfg_object \<Rightarrow> (cfg_object \<times> nat) list" where
  "imp_from pre [] s = []"
| "imp_from pre (p # ps) s =
     (if body p = [] then []
      else replicate (count_list (body p) s) (head p, length (rules_of pre (head p))))
     @ imp_from (pre @ [p]) ps s"

lemma rules_of_append: "rules_of (a @ b) h = rules_of a h @ rules_of b h"
  by (simp add: rules_of_def)


lemma rules_of_single:
  "rules_of [p] h = (if head p = h \<and> body p \<noteq> [] then [p] else [])"
  by (simp add: rules_of_def)




lemma count_list_replicate: "count_list (replicate n y) x = (if x = y then n else 0)"
  by (induction n) auto

lemma imp_from_count:
  "count_list (imp_from pre qs s) (h, i) =
     (if length (rules_of pre h) \<le> i \<and> i < length (rules_of (pre @ qs) h)
      then count_list (body (rules_of (pre @ qs) h ! i)) s else 0)"
proof (induction qs arbitrary: pre)
  case Nil
  then show ?case by simp
next
  case (Cons p qs)
  let ?n = "length (rules_of pre h)"
  have IH: "count_list (imp_from (pre @ [p]) qs s) (h, i) =
     (if length (rules_of (pre @ [p]) h) \<le> i \<and> i < length (rules_of (pre @ p # qs) h)
      then count_list (body (rules_of (pre @ p # qs) h ! i)) s else 0)"
    using Cons.IH [of "pre @ [p]"] by simp
  show ?case
  proof (cases "head p = h \<and> body p \<noteq> []")
    case True
    have a: "rules_of (pre @ [p]) h = rules_of pre h @ [p]"
      using True by (simp add: rules_of_append rules_of_single)
    have b: "rules_of (pre @ p # qs) h = rules_of pre h @ p # rules_of qs h"
      using True rules_of_append [of pre "p # qs" h] rules_of_append [of "[p]" qs h]
      by (simp add: rules_of_single)
    show ?thesis
    proof (cases "i = ?n")
      case e: True
      have "rules_of (pre @ p # qs) h ! i = p" unfolding b e by simp
      then show ?thesis using True e IH a b by (simp add: count_list_replicate)
    next
      case ne: False
      have "(?n + 1 \<le> i) = (?n \<le> i)" using ne by arith
      then show ?thesis using True ne IH a by (auto simp: count_list_replicate)
    qed
  next
    case False
    have a: "rules_of (pre @ [p]) h = rules_of pre h"
      using False by (simp add: rules_of_append rules_of_single)
    have "count_list (if body p = [] then []
             else replicate (count_list (body p) s) (head p, length (rules_of pre (head p)))) (h, i) = 0"
      using False by (auto simp: count_list_replicate)
    then show ?thesis using IH a by simp
  qed
qed

lemma imp_from_valid:
  "(h, i) \<in> set (imp_from [] ps s) \<Longrightarrow> i < length (rules_of ps h)"
proof -
  assume "(h, i) \<in> set (imp_from [] ps s)"
  then have "count_list (imp_from [] ps s) (h, i) \<noteq> 0"
    by (simp add: count_list_0_iff)
  then show ?thesis
    using imp_from_count [of "[]" ps s h i] by (auto split: if_splits)
qed

section \<open>The counter invariant of the engine\<close>

text \<open>
  The symbols obtained from a seed set by the rule: the head of a production with a non-empty body whose symbols are all obtained is obtained.
\<close>

inductive derivable :: "cfg_object set \<Rightarrow> production list \<Rightarrow> cfg_object \<Rightarrow> bool"
  for S :: "cfg_object set" and ps :: "production list" where
  seed: "x \<in> S \<Longrightarrow> derivable S ps x"
| rule: "p \<in> set ps \<Longrightarrow> body p \<noteq> [] \<Longrightarrow> (\<forall>y \<in> set (body p). derivable S ps y) \<Longrightarrow>
         derivable S ps (head p)"











lemma count_list_snoc: "count_list (xs @ [x]) y = count_list xs y + (if x = y then 1 else 0)"
  by (induction xs) auto



section \<open>What the generating and nullable analyses return\<close>

text \<open>
  The three tables of a grammar are unset, or they are the ones \<open>_set_impacts_and_remaining_lists\<close> builds from its productions.
\<close>

definition tables_built :: "cfg \<Rightarrow> bool" where
  "tables_built G =
     (impacts G = None \<or>
      (added_impacts G = Some (fst (set_tables (productions G) ([], fmempty, fmempty)))
       \<and> remaining_lists G = Some (fst (snd (set_tables (productions G) ([], fmempty, fmempty))))
       \<and> impacts G = Some (snd (snd (set_tables (productions G) ([], fmempty, fmempty))))))"



lemma tables_built_ok: "tables_built G \<Longrightarrow> tables_ok G"
proof (cases "impacts G")
  case None
  then show ?thesis by (simp add: tables_ok_def)
next
  case (Some imp)
  assume "tables_built G"
  with Some have a: "added_impacts G = Some (fst (set_tables (productions G) ([], fmempty, fmempty)))"
    and r: "remaining_lists G = Some (fst (snd (set_tables (productions G) ([], fmempty, fmempty))))"
    and i: "imp = snd (snd (set_tables (productions G) ([], fmempty, fmempty)))"
    by (simp_all add: tables_built_def)
  have "valid_impacts fmempty fmempty" by (simp add: valid_impacts_def)
  from set_tables_valid [OF this, of "productions G" "[]"]
  show ?thesis using Some a r i by (simp add: tables_ok_def)
qed

lemma tables_built_set: "tables_built G \<Longrightarrow> tables_built (set_impacts_and_remaining_lists G)"
  by (auto simp: tables_built_def set_impacts_and_remaining_lists_def Let_def)






section \<open>What the reachable analysis returns\<close>

text \<open>
  The symbols reached from the start symbol through the bodies of the productions.
\<close>

inductive reaches :: "production list \<Rightarrow> cfg_object option \<Rightarrow> cfg_object option \<Rightarrow> bool"
  for ps :: "production list" and start :: "cfg_object option" where
  start: "reaches ps start start"
| step: "reaches ps start (Some (head p)) \<Longrightarrow> p \<in> set ps \<Longrightarrow> y \<in> set (body p) \<Longrightarrow>
         \<not> is_Epsilon y \<Longrightarrow> reaches ps start (Some y)"






section \<open>What the unit-pair analysis returns\<close>








section \<open>Constructed grammars and their caches\<close>













text \<open>
  What the constructor guarantees of the sets of a grammar: no duplicates, every head and every non-terminal body symbol is a variable, every Terminal of a body is a terminal, the start symbol is a variable.
\<close>

definition wf_cfg :: "cfg \<Rightarrow> bool" where
  "wf_cfg G =
     (distinct (variables G) \<and> distinct (terminals G)
      \<and> (\<forall>p \<in> set (productions G). head p \<in> set (variables G)
            \<and> (\<forall>y \<in> set (body p). if is_Terminal y then y \<in> set (terminals G)
                                    else y \<in> set (variables G)))
      \<and> (\<forall>s. start_symbol G = Some s \<longrightarrow> s \<in> set (variables G)))"

text \<open>
  Two states of a CFG object that differ in their caches only.
\<close>

definition same_core :: "cfg \<Rightarrow> cfg \<Rightarrow> bool" where
  "same_core G G' =
     (variables G' = variables G \<and> terminals G' = terminals G
      \<and> start_symbol G' = start_symbol G \<and> productions G' = productions G)"


lemma same_core_wf: "same_core G G' \<Longrightarrow> wf_cfg G \<Longrightarrow> wf_cfg G'"
  by (simp add: same_core_def wf_cfg_def)

lemma same_core_refl: "same_core G G"
  by (simp add: same_core_def)

lemma same_core_trans: "same_core A B \<Longrightarrow> same_core B C \<Longrightarrow> same_core A C"
  by (simp add: same_core_def)

lemma same_core_set: "same_core G (set_impacts_and_remaining_lists G)"
  by (simp add: same_core_def set_impacts_and_remaining_lists_def Let_def)

lemma gon_result:
  assumes "tables_built G" and "get_generating_or_nullable b G = Inr (g, G')"
  shows "G' = set_impacts_and_remaining_lists G"
  using get_generating_or_nullable_run [OF tables_built_ok [OF assms(1)], of b] assms(2) by auto


lemma tables_built_upd_gen: "tables_built G \<Longrightarrow> tables_built (G\<lparr>generating_symbols := x\<rparr>)"
  by (simp add: tables_built_def)


lemma get_generating_symbols_elim:
  assumes tb: "tables_built G" and run: "get_generating_symbols G = Inr (n, G1)"
  shows "same_core G G1 \<and> tables_built G1 \<and> generating_symbols G1 = Some n
       \<and> nullable_symbols G1 = nullable_symbols G
       \<and> (generating_symbols G = None \<longrightarrow>
            get_generating_or_nullable False G = Inr (n, set_impacts_and_remaining_lists G))"
proof (cases "generating_symbols G")
  case (Some a)
  with run have "n = a" "G1 = G" by (simp_all add: get_generating_symbols_def)
  with Some tb show ?thesis by (simp add: same_core_refl)
next
  case None
  from get_generating_or_nullable_run [OF tables_built_ok [OF tb], of False] obtain g where
    g: "get_generating_or_nullable False G = Inr (g, set_impacts_and_remaining_lists G)" by blast
  with run None have e: "n = g" "G1 = (set_impacts_and_remaining_lists G)\<lparr>generating_symbols := Some g\<rparr>"
    by (auto simp: get_generating_symbols_def)
  have sc: "same_core G G1" using same_core_set [of G] unfolding e by (simp add: same_core_def)
  have t1: "tables_built G1" unfolding e
    by (rule tables_built_upd_gen [OF tables_built_set [OF tb]])
  have gs: "nullable_symbols G1 = nullable_symbols G" unfolding e
    by (simp add: set_impacts_and_remaining_lists_def Let_def)
  from sc t1 gs g e show ?thesis by simp
qed



lemma get_unit_pairs_same_core: "same_core G G' \<Longrightarrow> get_unit_pairs G' = get_unit_pairs G"
  by (simp add: same_core_def get_unit_pairs_def)


section \<open>Bounds on the result of the engine\<close>






section \<open>Consequences of the test made by to_normal_form\<close>







section \<open>The pass that isolates terminals\<close>











lemma Production_head [simp]: "head (Production h b f) = h"
  by (simp add: Production_def)

section \<open>The pass that splits long bodies\<close>






















section \<open>The shape of the productions of a normal form\<close>

















section \<open>Generating and reachable symbols of the normal form\<close>









section \<open>A grammar in the final shape is left as it is\<close>














section \<open>The grammars that to_normal_form returns\<close>



text \<open>
  The states of a CFG object: its sets are as the constructor leaves them, its tables are unset or built from its productions, and a cache that is set holds what the analysis computes. The constructor establishes it (\<open>cfg_state_CFG_init\<close>) and the two cached analyses keep it (\<open>cfg_state_nullable\<close>, \<open>cfg_state_generating\<close>).
\<close>

definition cfg_state :: "cfg \<Rightarrow> bool" where
  "cfg_state G =
     (wf_cfg G \<and> tables_built G
      \<and> (\<forall>n. nullable_symbols G = Some n \<longrightarrow>
            (\<exists>G'. get_generating_or_nullable True G = Inr (n, G')))
      \<and> (\<forall>g. generating_symbols G = Some g \<longrightarrow>
            (\<exists>G'. get_generating_or_nullable False G = Inr (g, G'))))"


lemma gon_set:
  "tables_built G \<Longrightarrow>
   get_generating_or_nullable b (set_impacts_and_remaining_lists G)
   = get_generating_or_nullable b G"
  unfolding get_generating_or_nullable_def [of b "set_impacts_and_remaining_lists G"]
    get_generating_or_nullable_def [of b G]
  by (simp add: set_impacts_idem [OF tables_built_ok])




lemma cfg_state_generating:
  assumes st: "cfg_state G" and run: "get_generating_symbols G = Inr (g, G1)"
  shows "cfg_state G1"
proof (cases "generating_symbols G")
  case (Some a)
  with run have "G1 = G" by (simp add: get_generating_symbols_def)
  with st show ?thesis by simp
next
  case None
  from st have tb: "tables_built G" and wf: "wf_cfg G" by (simp_all add: cfg_state_def)
  let ?S = "set_impacts_and_remaining_lists G"
  from get_generating_or_nullable_run [OF tables_built_ok [OF tb], of False] obtain r where
    r: "get_generating_or_nullable False G = Inr (r, ?S)" by blast
  with run None have e: "g = r" "G1 = ?S\<lparr>generating_symbols := Some r\<rparr>"
    by (auto simp: get_generating_symbols_def)
  from get_generating_symbols_elim [OF tb run]
  have sc: "same_core G G1" and tb1: "tables_built G1"
    and ns: "nullable_symbols G1 = nullable_symbols G" by simp_all
  have wf1: "wf_cfg G1" by (rule same_core_wf [OF sc wf])
  have a: "\<exists>G'. get_generating_or_nullable False G1 = Inr (g, G')"
    unfolding e gon_upd_gen gon_set [OF tb] r by simp
  have b: "\<forall>n. nullable_symbols G1 = Some n \<longrightarrow>
             (\<exists>G'. get_generating_or_nullable True G1 = Inr (n, G'))"
  proof (intro allI impI)
    fix n assume "nullable_symbols G1 = Some n"
    with ns have "nullable_symbols G = Some n" by simp
    with st obtain G' where "get_generating_or_nullable True G = Inr (n, G')"
      unfolding cfg_state_def by blast
    then show "\<exists>G'. get_generating_or_nullable True G1 = Inr (n, G')"
      unfolding e gon_upd_gen gon_set [OF tb] by simp
  qed
  from get_generating_symbols_elim [OF tb run] have "generating_symbols G1 = Some g" by simp
  with wf1 tb1 a b show ?thesis unfolding cfg_state_def by auto
qed






section \<open>Idempotence of to_normal_form\<close>



end

